theory Spec2Isabelle
  imports Complex_Main "HOL-Library.AList" "HOL-Library.Sublist"
begin

section \<open>Fractional cover virtual product (fc/virtualproduct.py)\<close>

text \<open>
  The module works on xarray objects: a \<open>Dataset\<close> of named \<open>DataArray\<close>s, each of
  which refers to a numeric array and to an attribute dictionary. Both are mutable
  Python objects, several names may refer to the same one, and
  \<open>scale_and_clip_dataarray\<close> writes into them in place. The embedding therefore keeps
  an explicit store of arrays and of attribute dictionaries; a \<open>DataArray\<close> is a pair of
  addresses into it. Every operation takes the store and returns the store it leaves
  behind, on the error path too.

  Numbers: Python's integers and floats are modelled by exact rationals (no rounding
  of the multiplication by 0.275). Arrays are indexed time, y, x.
\<close>

subsection \<open>Errors, attributes, dtypes\<close>

text \<open>
  The exceptions that the code can raise. \<open>ConfigurationError\<close> is the name used by the
  specification (section 7); no statement of the module raises it.
\<close>

datatype error =
    KeyError string
  | AttributeError string
  | IndexError
  | ValueError
  | ConfigurationError

datatype attr_value = Num rat | Str string

type_synonym attr_dict = "(string \<times> attr_value) list"

datatype dtype = Int8 | Int16 | Int32 | Int64

fun bits :: "dtype \<Rightarrow> nat" where
  "bits Int8 = 8"
| "bits Int16 = 16"
| "bits Int32 = 32"
| "bits Int64 = 64"

text \<open>
  \<open>astype\<close> on one cell: the fraction is dropped (rounding toward zero) and the integer
  is narrowed to the width of the dtype as a two's-complement value. A value inside the
  range of the dtype keeps its integer part.
\<close>

definition trunc :: "rat \<Rightarrow> int" where
  "trunc q = (if 0 \<le> q then \<lfloor>q\<rfloor> else \<lceil>q\<rceil>)"

definition narrow_int :: "nat \<Rightarrow> int \<Rightarrow> int" where
  "narrow_int w i = (i + 2 ^ (w - 1)) mod 2 ^ w - 2 ^ (w - 1)"

definition cast :: "dtype \<Rightarrow> rat \<Rightarrow> rat" where
  "cast dt v = of_int (narrow_int (bits dt) (trunc v))"

definition clip_value :: "rat \<Rightarrow> rat \<Rightarrow> rat \<Rightarrow> rat" where
  "clip_value lo hi v = min (max v lo) hi"

subsection \<open>The store\<close>

type_synonym ndarray = "rat list list list"

record store =
  arrays :: "ndarray list"
  dicts :: "attr_dict list"

text \<open>
  A \<open>DataArray\<close>: the address of its data, the window of a basic slice when it is a
  view of another array's data (\<open>isel\<close> with slices returns views: the first \<open>ny\<close> rows
  and \<open>nx\<close> columns of every time step), and the address of its attribute dictionary.
\<close>

record dataarray =
  data :: nat
  window :: "(nat \<times> nat) option"
  attrs :: nat

definition alloc_array :: "ndarray \<Rightarrow> store \<Rightarrow> nat \<times> store" where
  "alloc_array a s = (length (arrays s), s\<lparr>arrays := arrays s @ [a]\<rparr>)"

definition alloc_dict :: "attr_dict \<Rightarrow> store \<Rightarrow> nat \<times> store" where
  "alloc_dict d s = (length (dicts s), s\<lparr>dicts := dicts s @ [d]\<rparr>)"

definition map3 :: "('a \<Rightarrow> 'b) \<Rightarrow> 'a list list list \<Rightarrow> 'b list list list" where
  "map3 f = map (map (map f))"

definition view :: "(nat \<times> nat) option \<Rightarrow> 'a list list list \<Rightarrow> 'a list list list" where
  "view w a = (case w of None \<Rightarrow> a | Some (ny, nx) \<Rightarrow> map (\<lambda>g. map (take nx) (take ny g)) a)"

text \<open>\<open>dataarray.data\<close> / \<open>dataarray.values\<close>: the cells that the array shows.\<close>

definition values_of :: "store \<Rightarrow> dataarray \<Rightarrow> ndarray" where
  "values_of s da = view (window da) (arrays s ! data da)"

definition attrs_of :: "store \<Rightarrow> dataarray \<Rightarrow> attr_dict" where
  "attrs_of s da = dicts s ! attrs da"

text \<open>
  An elementwise operation (\<open>*\<close>, \<open>+\<close>, \<open>clip\<close>, \<open>astype\<close>) returns a new \<open>DataArray\<close>
  with data of its own and an attribute dictionary of its own: empty for the arithmetic
  operators, a copy of the operand's where the operation keeps attributes.
\<close>

definition elementwise :: "(rat \<Rightarrow> rat) \<Rightarrow> bool \<Rightarrow> dataarray \<Rightarrow> store \<Rightarrow> dataarray \<times> store" where
  "elementwise f keep_attrs da s =
     (let (p, s1) = alloc_array (map3 f (values_of s da)) s;
          (q, s2) = alloc_dict (if keep_attrs then attrs_of s da else []) s1
      in (\<lparr>data = p, window = None, attrs = q\<rparr>, s2))"

text \<open>
  \<open>a.data[mask] = v\<close>: a write in place into the cells that the mask selects. The mask
  has the shape of what the array shows; cells of the underlying array outside it stay.
  The caller passes \<open>v\<close> as the array's dtype holds it. For a scalar that the dtype
  cannot hold, what numpy does depends on its version (older versions wrap a Python
  integer around, newer ones raise \<open>OverflowError\<close>) and is not modelled: the theorems
  on whether \<open>scale_and_clip_dataarray\<close> returns and on what it leaves in the masked
  cells assume a scalar that the dtype can hold, \<open>cast dt v = v\<close>.
\<close>

fun overlay :: "('m \<Rightarrow> 'a \<Rightarrow> 'a) \<Rightarrow> 'm list \<Rightarrow> 'a list \<Rightarrow> 'a list" where
  "overlay f (m # ms) (x # xs) = f m x # overlay f ms xs"
| "overlay f [] xs = xs"
| "overlay f ms [] = []"

definition where3 :: "bool list list list \<Rightarrow> 'a \<Rightarrow> 'a list list list \<Rightarrow> 'a list list list" where
  "where3 msk v = overlay (overlay (overlay (\<lambda>m x. if m then v else x))) msk"

definition data_setitem :: "dataarray \<Rightarrow> bool list list list \<Rightarrow> rat \<Rightarrow> store \<Rightarrow> store" where
  "data_setitem da msk v s =
     s\<lparr>arrays := (arrays s)[data da := where3 msk v (arrays s ! data da)]\<rparr>"

text \<open>
  \<open>a.attrs = d\<close>: xarray's setter stores \<open>dict(d)\<close>, a new dictionary with the entries
  of \<open>d\<close>, so the array does not share \<open>d\<close> afterwards.
\<close>

definition set_attrs :: "dataarray \<Rightarrow> nat \<Rightarrow> store \<Rightarrow> dataarray \<times> store" where
  "set_attrs da d s = (let (q, s1) = alloc_dict (dicts s ! d) s in (da\<lparr>attrs := q\<rparr>, s1))"

text \<open>\<open>d[k] = v\<close> on the dictionary at an address: a write in place.\<close>

definition dict_setitem :: "nat \<Rightarrow> string \<Rightarrow> attr_value \<Rightarrow> store \<Rightarrow> store" where
  "dict_setitem d k v s = s\<lparr>dicts := (dicts s)[d := AList.update k v (dicts s ! d)]\<rparr>"

subsection \<open>scale_and_clip_dataarray\<close>

text \<open>
  Line by line as in the source. The result of \<open>dataarray.clip(clip_min, clip_max)\<close> is
  a new array that the source binds to no name: the local \<open>dataarray\<close> still refers to
  the unclipped one, which is what \<open>astype\<close> then reads. The store into the cells chosen
  by the mask writes into an array of dtype \<open>new_dtype\<close>, which converts the scalar.
\<close>

definition scale_and_clip_dataarray ::
  "dataarray \<Rightarrow> rat \<Rightarrow> rat \<Rightarrow> (rat \<times> rat) option \<Rightarrow> rat \<Rightarrow> dtype \<Rightarrow> store
     \<Rightarrow> (error + dataarray) \<times> store" where
  "scale_and_clip_dataarray dataarray scale_factor add_offset clip_range new_nodata new_dtype s =
     (let orig_attrs = attrs dataarray in
      case map_of (dicts s ! orig_attrs) ''nodata'' of
        None \<Rightarrow> (Inl (KeyError ''nodata''), s)
      | Some nodata \<Rightarrow>
          (let msk = map3 (\<lambda>v. Num v = nodata) (values_of s dataarray);
               (da1, s1) = elementwise (\<lambda>v. v * scale_factor) False dataarray s;
               (da2, s2) = elementwise (\<lambda>v. v + add_offset) False da1 s1;
               s3 = (case clip_range of
                       None \<Rightarrow> s2
                     | Some (clip_min, clip_max) \<Rightarrow>
                         snd (elementwise (clip_value clip_min clip_max) True da2 s2));
               (da4, s4) = elementwise (cast new_dtype) True da2 s3;
               s5 = data_setitem da4 msk (cast new_dtype new_nodata) s4;
               (da6, s6) = set_attrs da4 orig_attrs s5;
               s7 = dict_setitem (attrs da6) ''nodata'' (Num new_nodata) s6
           in (Inr da6, s7)))"

subsection \<open>Datasets and time slices\<close>

text \<open>
  A \<open>Dataset\<close>: its data variables by name (a Python dict, kept in insertion order), the
  \<open>time\<close> coordinate, and the address of its attribute dictionary. xarray keeps the
  variables of a dataset aligned: each has one entry per value of the time coordinate.
\<close>

record dataset =
  data_vars :: "(string \<times> dataarray) list"
  time :: "rat list"
  ds_attrs :: nat

text \<open>
  One time step of a cube, as \<open>data.isel(time=i)\<close> hands it to the unmixing function and
  as the unmixing function returns it: per band a two-dimensional grid (rows y, columns
  x) with the band's attributes.
\<close>

record tslice =
  bands :: "(string \<times> rat list list \<times> attr_dict) list"
  slice_time :: rat
  slice_attrs :: attr_dict

definition grid_of :: "tslice \<Rightarrow> string \<Rightarrow> rat list list" where
  "grid_of sl k = (case map_of (bands sl) k of None \<Rightarrow> [] | Some (g, d) \<Rightarrow> g)"

definition band_values :: "store \<Rightarrow> dataset \<Rightarrow> string \<Rightarrow> ndarray" where
  "band_values s ds k = (case map_of (data_vars ds) k of None \<Rightarrow> [] | Some da \<Rightarrow> values_of s da)"

text \<open>
  \<open>data.isel(x=slice(0, n), y=slice(0, n))\<close>: a new dataset whose variables are views of
  the same data, cut to the first \<open>n\<close> rows and columns, with copies of the attribute
  dictionaries.
\<close>

definition narrow :: "nat \<Rightarrow> nat \<Rightarrow> (nat \<times> nat) option \<Rightarrow> (nat \<times> nat) option" where
  "narrow ny nx w = (case w of None \<Rightarrow> Some (ny, nx) | Some (my, mx) \<Rightarrow> Some (min my ny, min mx nx))"

fun isel_xy_vars :: "nat \<Rightarrow> nat \<Rightarrow> (string \<times> dataarray) list \<Rightarrow> store
    \<Rightarrow> (string \<times> dataarray) list \<times> store" where
  "isel_xy_vars ny nx [] s = ([], s)"
| "isel_xy_vars ny nx ((k, da) # kvs) s =
     (let (q, s1) = alloc_dict (attrs_of s da) s;
          (kvs', s2) = isel_xy_vars ny nx kvs s1
      in ((k, \<lparr>data = data da, window = narrow ny nx (window da), attrs = q\<rparr>) # kvs', s2))"

definition isel_xy :: "nat \<Rightarrow> nat \<Rightarrow> dataset \<Rightarrow> store \<Rightarrow> dataset \<times> store" where
  "isel_xy ny nx ds s =
     (let (kvs, s1) = isel_xy_vars ny nx (data_vars ds) s;
          (q, s2) = alloc_dict (dicts s1 ! ds_attrs ds) s1
      in (\<lparr>data_vars = kvs, time = time ds, ds_attrs = q\<rparr>, s2))"

text \<open>
  \<open>data.apply(func, keep_attrs=True, ...)\<close>: \<open>func\<close> on every data variable in turn, then
  a new dataset of the results with a copy of the dataset's attributes. An exception of
  \<open>func\<close> ends the call.
\<close>

fun apply_vars :: "(dataarray \<Rightarrow> store \<Rightarrow> (error + dataarray) \<times> store)
    \<Rightarrow> (string \<times> dataarray) list \<Rightarrow> store \<Rightarrow> (error + (string \<times> dataarray) list) \<times> store" where
  "apply_vars f [] s = (Inr [], s)"
| "apply_vars f ((k, v) # kvs) s =
     (case f v s of
        (Inl e, s1) \<Rightarrow> (Inl e, s1)
      | (Inr v', s1) \<Rightarrow>
          (case apply_vars f kvs s1 of
             (Inl e, s2) \<Rightarrow> (Inl e, s2)
           | (Inr kvs', s2) \<Rightarrow> (Inr ((k, v') # kvs'), s2)))"

definition dataset_apply :: "(dataarray \<Rightarrow> store \<Rightarrow> (error + dataarray) \<times> store) \<Rightarrow> bool
    \<Rightarrow> dataset \<Rightarrow> store \<Rightarrow> (error + dataset) \<times> store" where
  "dataset_apply f keep_attrs ds s =
     (case apply_vars f (data_vars ds) s of
        (Inl e, s1) \<Rightarrow> (Inl e, s1)
      | (Inr kvs, s1) \<Rightarrow>
          (let (q, s2) = alloc_dict (if keep_attrs then dicts s1 ! ds_attrs ds else []) s1
           in (Inr \<lparr>data_vars = kvs, time = time ds, ds_attrs = q\<rparr>, s2)))"

definition scale_usgs_collection2 :: "dataset \<Rightarrow> store \<Rightarrow> (error + dataset) \<times> store" where
  "scale_usgs_collection2 ds s =
     dataset_apply
       (\<lambda>da. scale_and_clip_dataarray da (11 / 40) (- 2000) (Some (0, 10000)) (- 999) Int16)
       True ds s"

text \<open>\<open>data.isel(time=i)\<close>: the time step \<open>i\<close> of every variable.\<close>

definition isel_time :: "dataset \<Rightarrow> nat \<Rightarrow> store \<Rightarrow> error + tslice" where
  "isel_time ds i s =
     (if i < length (time ds) \<and> list_all (\<lambda>(k, da). i < length (values_of s da)) (data_vars ds)
      then Inr \<lparr>bands = map (\<lambda>(k, da). (k, values_of s da ! i, attrs_of s da)) (data_vars ds),
                slice_time = time ds ! i,
                slice_attrs = dicts s ! ds_attrs ds\<rparr>
      else Inl IndexError)"

text \<open>
  \<open>xr.concat(objs, dim='time')\<close>: no object to concatenate is a \<open>ValueError\<close>, and so is
  a variable that some of the objects have and others do not. The result is a new
  dataset: every variable of the first object, stacked over the objects in list order,
  with the attributes of the first.
\<close>

fun alloc_vars :: "(string \<times> ndarray \<times> attr_dict) list \<Rightarrow> store
    \<Rightarrow> (string \<times> dataarray) list \<times> store" where
  "alloc_vars [] s = ([], s)"
| "alloc_vars ((k, a, d) # r) s =
     (let (p, s1) = alloc_array a s;
          (q, s2) = alloc_dict d s1;
          (kvs, s3) = alloc_vars r s2
      in ((k, \<lparr>data = p, window = None, attrs = q\<rparr>) # kvs, s3))"

definition xr_concat :: "tslice list \<Rightarrow> store \<Rightarrow> (error + dataset) \<times> store" where
  "xr_concat objs s =
     (case objs of
        [] \<Rightarrow> (Inl ValueError, s)
      | first # rest \<Rightarrow>
          if list_all (\<lambda>sl. set (map fst (bands sl)) = set (map fst (bands first))) rest
          then (let (kvs, s1) =
                      alloc_vars (map (\<lambda>(k, g, d). (k, map (\<lambda>sl. grid_of sl k) objs, d)) (bands first)) s;
                    (q, s2) = alloc_dict (slice_attrs first) s1
                in (Inr \<lparr>data_vars = kvs, time = map slice_time objs, ds_attrs = q\<rparr>, s2))
          else (Inl ValueError, s))"

text \<open>
  \<open>ds.rename(name_dict)\<close>: a \<open>ValueError\<close> when a key is not a variable of the dataset or
  when a new name meets a name that is already there; otherwise a dataset with the
  variables renamed, in the same order, over the same data and attributes.
\<close>

definition rename :: "(string \<times> string) list \<Rightarrow> dataset \<Rightarrow> error + dataset" where
  "rename name_dict ds =
     (if list_all (\<lambda>(old, new). old \<in> set (map fst (data_vars ds))) name_dict
      then (let kvs = map (\<lambda>(k, v). (case map_of name_dict k of None \<Rightarrow> k | Some new \<Rightarrow> new, v))
                        (data_vars ds)
            in if distinct (map fst kvs) then Inr (ds\<lparr>data_vars := kvs\<rparr>) else Inl ValueError)
      else Inl ValueError)"

subsection \<open>FractionalCover\<close>

record measurement =
  name :: string
  dtype :: dtype
  nodata :: rat
  units :: string

definition FC_MEASUREMENTS :: "measurement list" where
  "FC_MEASUREMENTS =
     [\<lparr>name = ''pv'', dtype = Int8, nodata = - 1, units = ''percent''\<rparr>,
      \<lparr>name = ''npv'', dtype = Int8, nodata = - 1, units = ''percent''\<rparr>,
      \<lparr>name = ''bs'', dtype = Int8, nodata = - 1, units = ''percent''\<rparr>,
      \<lparr>name = ''ue'', dtype = Int8, nodata = - 1, units = []\<rparr>]"

type_synonym coefficients = "(string \<times> rat list) list"

record fc_self =
  regression_coefficients :: coefficients
  c2_scaling :: bool
  test_mode :: bool

text \<open>\<open>FractionalCover.__init__\<close>, with \<open>None\<close> for the absent argument.\<close>

definition init :: "coefficients option \<Rightarrow> bool \<Rightarrow> bool \<Rightarrow> fc_self" where
  "init coeffs scaling testing =
     \<lparr>regression_coefficients =
        (case coeffs of
           None \<Rightarrow> map (\<lambda>band. (band, [0, 1])) [''green'', ''red'', ''nir'', ''swir1'', ''swir2'']
         | Some given \<Rightarrow> given),
      c2_scaling = scaling,
      test_mode = testing\<rparr>"

definition measurements :: "fc_self \<Rightarrow> (string \<times> measurement) list" where
  "measurements self = map (\<lambda>m. (name m, m)) FC_MEASUREMENTS"

text \<open>
  The unmixing function \<open>fc.fractional_cover.fractional_cover\<close> is not part of this
  module; \<open>compute\<close> takes it as a parameter. It reads one time step and returns the
  time step of the fractions, or raises.
\<close>

type_synonym unmix = "tslice \<Rightarrow> measurement list \<Rightarrow> coefficients \<Rightarrow> error + tslice"

text \<open>Lines 54 to 59 of \<open>compute\<close>: the test window and the scaling of collection 2.\<close>

definition prepare :: "fc_self \<Rightarrow> dataset \<Rightarrow> store \<Rightarrow> (error + dataset) \<times> store" where
  "prepare self ds s =
     (let (ds1, s1) = (if test_mode self then isel_xy 100 100 ds s else (ds, s))
      in if c2_scaling self then scale_usgs_collection2 ds1 s1 else (Inr ds1, s1))"

text \<open>Line 64, the body of the loop at one time index.\<close>

definition unmix_at :: "fc_self \<Rightarrow> unmix \<Rightarrow> dataset \<Rightarrow> store \<Rightarrow> nat \<Rightarrow> error + tslice" where
  "unmix_at self fractional_cover ds s time_idx =
     (case isel_time ds time_idx s of
        Inl e \<Rightarrow> Inl e
      | Inr sl \<Rightarrow> fractional_cover sl FC_MEASUREMENTS (regression_coefficients self))"

text \<open>Lines 61 to 64, the loop over \<open>range(len(data.time))\<close>; \<open>fc.append\<close> keeps the order.\<close>

fun unmix_loop :: "fc_self \<Rightarrow> unmix \<Rightarrow> dataset \<Rightarrow> store \<Rightarrow> nat list \<Rightarrow> error + tslice list" where
  "unmix_loop self fractional_cover ds s [] = Inr []"
| "unmix_loop self fractional_cover ds s (time_idx # rest) =
     (case unmix_at self fractional_cover ds s time_idx of
        Inl e \<Rightarrow> Inl e
      | Inr r \<Rightarrow>
          (case unmix_loop self fractional_cover ds s rest of
             Inl e \<Rightarrow> Inl e
           | Inr rs \<Rightarrow> Inr (r # rs)))"

definition band_renames :: "(string \<times> string) list" where
  "band_renames = [(''BS'', ''bs''), (''PV'', ''pv''), (''NPV'', ''npv''), (''UE'', ''ue'')]"

definition compute :: "fc_self \<Rightarrow> unmix \<Rightarrow> dataset \<Rightarrow> store \<Rightarrow> (error + dataset) \<times> store" where
  "compute self fractional_cover ds s =
     (case prepare self ds s of
        (Inl e, s2) \<Rightarrow> (Inl e, s2)
      | (Inr ds2, s2) \<Rightarrow>
          (case unmix_loop self fractional_cover ds2 s2 [0..<length (time ds2)] of
             Inl e \<Rightarrow> (Inl e, s2)
           | Inr fc \<Rightarrow>
               (case xr_concat fc s2 of
                  (Inl e, s3) \<Rightarrow> (Inl e, s3)
                | (Inr fcd, s3) \<Rightarrow>
                    (case map_of (dicts s3 ! ds_attrs ds2) ''crs'' of
                       None \<Rightarrow> (Inl (KeyError ''crs''), s3)
                     | Some crs \<Rightarrow>
                         (let s4 = dict_setitem (ds_attrs fcd) ''crs'' crs s3
                          in case rename band_renames fcd of
                               Inl ValueError \<Rightarrow> (Inr fcd, s4)
                             | Inl e \<Rightarrow> (Inl e, s4)
                             | Inr renamed \<Rightarrow> (Inr renamed, s4))))))"

subsection \<open>FakeFractionalCover\<close>

text \<open>
  \<open>xr.Dataset({...}, attrs=data.attrs)\<close> takes each array over with a copy of its
  attribute dictionary and the same data, and copies the attributes it is given.
\<close>

definition take_over :: "dataarray \<Rightarrow> store \<Rightarrow> dataarray \<times> store" where
  "take_over da s = (let (q, s1) = alloc_dict (attrs_of s da) s in (da\<lparr>attrs := q\<rparr>, s1))"

definition fake_compute :: "fc_self \<Rightarrow> dataset \<Rightarrow> store \<Rightarrow> (error + dataset) \<times> store" where
  "fake_compute self ds s =
     (case (if c2_scaling self then scale_usgs_collection2 ds s else (Inr ds, s)) of
        (Inl e, s1) \<Rightarrow> (Inl e, s1)
      | (Inr ds1, s1) \<Rightarrow>
          (case map_of (data_vars ds1) ''red'' of
             None \<Rightarrow> (Inl (AttributeError ''red''), s1)
           | Some red \<Rightarrow>
               (case map_of (data_vars ds1) ''green'' of
                  None \<Rightarrow> (Inl (AttributeError ''green''), s1)
                | Some green \<Rightarrow>
                    (let (pv, s2) = take_over red s1;
                         (bs, s3) = take_over red s2;
                         (npv, s4) = take_over green s3;
                         (q, s5) = alloc_dict (dicts s4 ! ds_attrs ds1) s4
                     in (Inr \<lparr>data_vars = [(''pv'', pv), (''bs'', bs), (''npv'', npv)],
                               time = time ds1, ds_attrs = q\<rparr>, s5)))))"

subsection \<open>Stores over time, well-formed datasets\<close>

text \<open>
  \<open>extends s s'\<close>: every array and every attribute dictionary of \<open>s\<close> is in \<open>s'\<close> at the
  same address with the same contents; \<open>s'\<close> may hold more.
\<close>

definition extends :: "store \<Rightarrow> store \<Rightarrow> bool" where
  "extends s s' = (prefix (arrays s) (arrays s') \<and> prefix (dicts s) (dicts s'))"

definition wf_dataarray :: "store \<Rightarrow> dataarray \<Rightarrow> bool" where
  "wf_dataarray s da = (data da < length (arrays s) \<and> attrs da < length (dicts s))"

text \<open>
  What xarray guarantees of a dataset: its objects exist, and every variable has one
  entry per value of the time coordinate.
\<close>

definition wf_dataset :: "store \<Rightarrow> dataset \<Rightarrow> bool" where
  "wf_dataset s ds =
     (ds_attrs ds < length (dicts s)
      \<and> list_all (\<lambda>kv. wf_dataarray s (snd kv) \<and> length (values_of s (snd kv)) = length (time ds))
          (data_vars ds))"

text \<open>The first \<open>n\<close> rows and columns of every time step.\<close>

definition cut :: "nat \<Rightarrow> 'a list list list \<Rightarrow> 'a list list list" where
  "cut n a = map (\<lambda>g. map (take n) (take n g)) a"

text \<open>A grid of \<open>h\<close> rows of \<open>w\<close> cells.\<close>

definition has_shape :: "nat \<Rightarrow> nat \<Rightarrow> 'a list list \<Rightarrow> bool" where
  "has_shape h w g = (length g = h \<and> list_all (\<lambda>row. length row = w) g)"

text \<open>The extent of an array: the length of every row of every time step.\<close>

definition shape_of :: "'a list list list \<Rightarrow> nat list list" where
  "shape_of a = map (map length) a"

subsection \<open>What one cell becomes\<close>

text \<open>
  The value that \<open>scale_and_clip_dataarray\<close> leaves in a cell that held \<open>v\<close>, for a band
  whose \<open>nodata\<close> attribute is \<open>nd\<close>: used to state what the function computes.
\<close>

definition scaled_cell :: "rat \<Rightarrow> rat \<Rightarrow> rat \<Rightarrow> dtype \<Rightarrow> attr_value \<Rightarrow> rat \<Rightarrow> rat" where
  "scaled_cell sf off nn dt nd = (\<lambda>v. if Num v = nd then cast dt nn else cast dt (v * sf + off))"

text \<open>
  What \<open>prepare\<close> leaves in a band, in closed form: the test window when \<open>test_mode\<close> is
  set, then the scaling of collection 2 when \<open>c2_scaling\<close> is set. \<open>d\<close> is the attribute
  dictionary of the input band, \<open>a\<close> its values.
\<close>

definition prepared_values :: "fc_self \<Rightarrow> attr_dict \<Rightarrow> ndarray \<Rightarrow> ndarray" where
  "prepared_values self d a =
     (let a1 = (if test_mode self then cut 100 a else a)
      in if c2_scaling self
         then (case map_of d ''nodata'' of
                 None \<Rightarrow> a1
               | Some nd \<Rightarrow> map3 (scaled_cell (11 / 40) (- 2000) (- 999) Int16 nd) a1)
         else a1)"


subsection \<open>The recalibration by a coefficient pair\<close>


subsection \<open>Example inputs\<close>

text \<open>
  One band of one time step, two rows and two columns, with the nodata value -999 in
  one cell; a second attribute dictionary that declares no nodata value.
\<close>

definition example_store :: store where
  "example_store =
     \<lparr>arrays = [[[[5000, - 999], [20000, 0]]]],
      dicts = [[(''nodata'', Num (- 999)), (''units'', Str ''1'')], [(''units'', Str ''1'')]]\<rparr>"

definition example_band :: dataarray where
  "example_band = \<lparr>data = 0, window = None, attrs = 0\<rparr>"

definition example_band_no_nodata :: dataarray where
  "example_band_no_nodata = \<lparr>data = 0, window = None, attrs = 1\<rparr>"

text \<open>
  A cube of the five required bands over two time steps, one row and two columns, with
  nodata 0 on every band and a \<open>crs\<close> attribute on the cube.
\<close>

definition example_cube_store :: store where
  "example_cube_store =
     \<lparr>arrays = [[[[1, 2]], [[3, 4]]],
                [[[5, 6]], [[7, 8]]],
                [[[9, 10]], [[11, 12]]],
                [[[13, 14]], [[15, 16]]],
                [[[17, 18]], [[19, 0]]]],
      dicts = [[(''nodata'', Num 0)], [(''nodata'', Num 0)], [(''nodata'', Num 0)],
               [(''nodata'', Num 0)], [(''nodata'', Num 0)],
               [(''crs'', Str ''EPSG:32655'')]]\<rparr>"

definition example_cube :: dataset where
  "example_cube =
     \<lparr>data_vars = [(''green'', \<lparr>data = 0, window = None, attrs = 0\<rparr>),
                   (''red'', \<lparr>data = 1, window = None, attrs = 1\<rparr>),
                   (''nir'', \<lparr>data = 2, window = None, attrs = 2\<rparr>),
                   (''swir1'', \<lparr>data = 3, window = None, attrs = 3\<rparr>),
                   (''swir2'', \<lparr>data = 4, window = None, attrs = 4\<rparr>)],
      time = [0, 1],
      ds_attrs = 5\<rparr>"

text \<open>
  A stand-in for the unmixing function in the evaluated examples: it returns four bands
  read off the reflectance bands, under the names PV, NPV, BS, UE when \<open>upper\<close> is set
  and under pv, npv, bs, ue otherwise.
\<close>

definition example_unmix :: "bool \<Rightarrow> unmix" where
  "example_unmix upper sl ms rc =
     Inr \<lparr>bands = [(if upper then ''PV'' else ''pv'', grid_of sl ''green'', []),
                  (if upper then ''NPV'' else ''npv'', grid_of sl ''red'', []),
                  (if upper then ''BS'' else ''bs'', grid_of sl ''nir'', []),
                  (if upper then ''UE'' else ''ue'', grid_of sl ''swir1'', [])],
          slice_time = slice_time sl,
          slice_attrs = []\<rparr>"

text \<open>A cube of one band, one time step, one row and two columns, for the scaling.\<close>

definition tiny_store :: store where
  "tiny_store =
     \<lparr>arrays = [[[[4000, 0]]]],
      dicts = [[(''nodata'', Num 0)], [(''crs'', Str ''EPSG:32655'')]]\<rparr>"

definition tiny_cube :: dataset where
  "tiny_cube =
     \<lparr>data_vars = [(''green'', \<lparr>data = 0, window = None, attrs = 0\<rparr>)], time = [0], ds_attrs = 1\<rparr>"



text \<open>
  A cube of one band, one time step and one row of 101 cells, wider than the test window,
  and a stand-in for the unmixing function that returns the first band it is given four
  times.
\<close>

definition wide_store :: store where
  "wide_store =
     \<lparr>arrays = [[[replicate 101 7]]],
      dicts = [[(''nodata'', Num 0)], [(''crs'', Str ''EPSG:32655'')]]\<rparr>"

definition wide_cube :: dataset where
  "wide_cube =
     \<lparr>data_vars = [(''green'', \<lparr>data = 0, window = None, attrs = 0\<rparr>)], time = [0], ds_attrs = 1\<rparr>"

definition first_band_unmix :: unmix where
  "first_band_unmix sl ms rc =
     (let g = (case bands sl of [] \<Rightarrow> [] | b # _ \<Rightarrow> fst (snd b))
      in Inr \<lparr>bands = [(''PV'', g, []), (''NPV'', g, []), (''BS'', g, []), (''UE'', g, [])],
               slice_time = slice_time sl,
               slice_attrs = []\<rparr>)"

section \<open>Properties\<close>

subsection \<open>Elementwise operations and the masked store\<close>

lemma length_overlay [simp]: "length (overlay f ms xs) = length xs"
  by (induction f ms xs rule: overlay.induct) simp_all

lemma overlay_map:
  "overlay f (map h xs) (map g xs) = map (\<lambda>x. f (h x) (g x)) xs"
  by (induction xs) simp_all

lemma map3_map3: "map3 f (map3 g a) = map3 (\<lambda>x. f (g x)) a"
  by (simp add: map3_def comp_def)

lemma where3_map3:
  "where3 (map3 p a) v (map3 g a) = map3 (\<lambda>x. if p x then v else g x) a"
  by (simp add: where3_def map3_def overlay_map)

lemma elementwise_eq:
  "elementwise f k da s =
     (\<lparr>data = length (arrays s), window = None, attrs = length (dicts s)\<rparr>,
      s\<lparr>arrays := arrays s @ [map3 f (values_of s da)],
        dicts := dicts s @ [if k then attrs_of s da else []]\<rparr>)"
  by (simp add: elementwise_def alloc_array_def alloc_dict_def values_of_def attrs_of_def)

lemma scale_and_clip_result:
  assumes "map_of (dicts s ! attrs da) ''nodata'' = Some nd"
    and "attrs da < length (dicts s)"
  shows "\<exists>out s'. scale_and_clip_dataarray da sf off cr nn dt s = (Inr out, s')
     \<and> values_of s' out = map3 (scaled_cell sf off nn dt nd) (values_of s da)
     \<and> attrs_of s' out = AList.update ''nodata'' (Num nn) (dicts s ! attrs da)
     \<and> length (arrays s) \<le> data out \<and> data out < length (arrays s')
     \<and> length (dicts s) \<le> attrs out \<and> attrs out < length (dicts s')
     \<and> window out = None"
  using assms
  by (cases cr)
    (auto simp: scale_and_clip_dataarray_def elementwise_eq Let_def data_setitem_def
      set_attrs_def alloc_dict_def dict_setitem_def nth_append where3_map3 map3_map3
      values_of_def view_def attrs_of_def scaled_cell_def)

lemma map3_nth:
  "t < length a \<Longrightarrow> y < length (a ! t) \<Longrightarrow> x < length (a ! t ! y)
     \<Longrightarrow> map3 f a ! t ! y ! x = f (a ! t ! y ! x)"
  by (simp add: map3_def)

subsection \<open>Claims about scale_and_clip_dataarray\<close>

text \<open>
  C1 (the code departs from the claim). The claim: with a clip range, every cell that is
  not nodata holds \<open>clip(value * scale_factor + add_offset, min, max)\<close> cast to the target
  width. Evaluated on the example band with the parameters of \<open>scale_usgs_collection2\<close>:
  the raw values 5000 and 0 come out as -625 and -2000, below the clip minimum 0, where
  the claim gives 0 for both. The clipped array is computed and dropped.
\<close>

theorem scale_and_clip_does_not_clip:
  "(case scale_and_clip_dataarray example_band (11 / 40) (- 2000) (Some (0, 10000)) (- 999) Int16 example_store of
      (Inr out, s') \<Rightarrow> values_of s' out = [[[- 625, - 999], [3500, - 2000]]]
    | (Inl e, s') \<Rightarrow> False)
   \<and> map3 (\<lambda>v. cast Int16 (clip_value 0 10000 (v * (11 / 40) + (- 2000)))) [[[5000], [20000, 0]]]
       = [[[0], [3500, 0]]]"
  by (simp add: scale_and_clip_dataarray_def elementwise_eq Let_def data_setitem_def
      set_attrs_def alloc_dict_def dict_setitem_def nth_append where3_def map3_def
      values_of_def view_def attrs_of_def example_store_def example_band_def
      cast_def trunc_def narrow_int_def clip_value_def)

text \<open>
  C2. For a band that declares a nodata value \<open>nd\<close>, whatever the scale factor, offset
  and clip range: the call returns, every cell whose raw value equals \<open>nd\<close> holds
  \<open>new_nodata\<close> in the result, and the \<open>nodata\<close> attribute of the result is \<open>new_nodata\<close>.
  The target dtype must be able to hold \<open>new_nodata\<close>, and the band's attribute dictionary
  must exist in the store.
\<close>

theorem scale_and_clip_nodata_cells:
  assumes "map_of (attrs_of s da) ''nodata'' = Some nd"
    and "attrs da < length (dicts s)"
    and "cast new_dtype new_nodata = new_nodata"
  shows "\<exists>out s'.
      scale_and_clip_dataarray da scale_factor add_offset clip_range new_nodata new_dtype s = (Inr out, s')
    \<and> map_of (attrs_of s' out) ''nodata'' = Some (Num new_nodata)
    \<and> (\<forall>t y x. t < length (values_of s da) \<and> y < length (values_of s da ! t)
           \<and> x < length (values_of s da ! t ! y) \<and> Num (values_of s da ! t ! y ! x) = nd
         \<longrightarrow> values_of s' out ! t ! y ! x = new_nodata)"
proof -
  from assms(1) have nd: "map_of (dicts s ! attrs da) ''nodata'' = Some nd"
    by (simp add: attrs_of_def)
  from scale_and_clip_result [OF nd assms(2), of scale_factor add_offset clip_range new_nodata new_dtype]
  obtain out s' where
    r: "scale_and_clip_dataarray da scale_factor add_offset clip_range new_nodata new_dtype s = (Inr out, s')"
    and v: "values_of s' out = map3 (scaled_cell scale_factor add_offset new_nodata new_dtype nd) (values_of s da)"
    and a: "attrs_of s' out = AList.update ''nodata'' (Num new_nodata) (dicts s ! attrs da)"
    by blast
  have "map_of (attrs_of s' out) ''nodata'' = Some (Num new_nodata)"
    by (simp add: a update_conv')
  moreover have "values_of s' out ! t ! y ! x = new_nodata"
    if "t < length (values_of s da)" "y < length (values_of s da ! t)"
      "x < length (values_of s da ! t ! y)" "Num (values_of s da ! t ! y ! x) = nd" for t y x
    using that assms(3) by (simp add: v map3_nth scaled_cell_def)
  ultimately show ?thesis using r by blast
qed

theorem scale_and_clip_nodata_cells_witness:
  "map_of (attrs_of example_store example_band) ''nodata'' = Some (Num (- 999))
   \<and> attrs example_band < length (dicts example_store)
   \<and> cast Int16 (- 999) = - 999
   \<and> (\<exists>out s'.
         scale_and_clip_dataarray example_band (11 / 40) (- 2000) (Some (0, 10000)) (- 999) Int16
           example_store = (Inr out, s')
       \<and> map_of (attrs_of s' out) ''nodata'' = Some (Num (- 999))
       \<and> values_of s' out ! 0 ! 0 ! 1 = - 999)"
proof -
  have h1: "map_of (attrs_of example_store example_band) ''nodata'' = Some (Num (- 999))"
    by (simp add: attrs_of_def example_store_def example_band_def)
  have h2: "attrs example_band < length (dicts example_store)"
    by (simp add: example_store_def example_band_def)
  have h3: "cast Int16 (- 999) = - 999"
    by (simp add: cast_def trunc_def narrow_int_def)
  have cell: "0 < length (values_of example_store example_band)
      \<and> 0 < length (values_of example_store example_band ! 0)
      \<and> 1 < length (values_of example_store example_band ! 0 ! 0)
      \<and> Num (values_of example_store example_band ! 0 ! 0 ! 1) = Num (- 999)"
    by (simp add: values_of_def view_def example_store_def example_band_def)
  from scale_and_clip_nodata_cells [OF h1 h2 h3, of "11 / 40" "- 2000" "Some (0, 10000)"] cell
  have "\<exists>out s'.
         scale_and_clip_dataarray example_band (11 / 40) (- 2000) (Some (0, 10000)) (- 999) Int16
           example_store = (Inr out, s')
       \<and> map_of (attrs_of s' out) ''nodata'' = Some (Num (- 999))
       \<and> values_of s' out ! 0 ! 0 ! 1 = - 999"
    by blast
  with h1 h2 h3 show ?thesis by blast
qed

text \<open>
  C5, as amended. A band whose attributes declare no nodata value makes the call raise
  \<open>KeyError\<close> for the key \<open>nodata\<close> (the look-up on line 110), before anything is
  computed: the store comes back as it was. A band that declares one never makes the call
  raise, whatever the scale factor, offset and clip range, when the target dtype can hold
  \<open>new_nodata\<close>.
\<close>

theorem scale_and_clip_errors:
  "(map_of (attrs_of s da) ''nodata'' = None \<longrightarrow>
      scale_and_clip_dataarray da scale_factor add_offset clip_range new_nodata new_dtype s
        = (Inl (KeyError ''nodata''), s))
   \<and> (map_of (attrs_of s da) ''nodata'' \<noteq> None \<and> cast new_dtype new_nodata = new_nodata \<longrightarrow>
        (\<exists>out s'. scale_and_clip_dataarray da scale_factor add_offset clip_range new_nodata new_dtype s
           = (Inr out, s')))"
  by (cases clip_range)
    (auto simp: scale_and_clip_dataarray_def attrs_of_def elementwise_eq Let_def set_attrs_def
      alloc_dict_def split: option.splits)

theorem scale_and_clip_errors_witness:
  "map_of (attrs_of example_store example_band_no_nodata) ''nodata'' = None
   \<and> scale_and_clip_dataarray example_band_no_nodata (11 / 40) (- 2000) (Some (0, 10000)) (- 999) Int16
        example_store = (Inl (KeyError ''nodata''), example_store)
   \<and> map_of (attrs_of example_store example_band) ''nodata'' \<noteq> None
   \<and> cast Int16 (- 999) = - 999
   \<and> (\<exists>out s'. scale_and_clip_dataarray example_band (11 / 40) (- 2000) (Some (0, 10000)) (- 999) Int16
        example_store = (Inr out, s'))"
proof -
  have h1: "map_of (attrs_of example_store example_band_no_nodata) ''nodata'' = None"
    by (simp add: attrs_of_def example_store_def example_band_no_nodata_def)
  have h2: "map_of (attrs_of example_store example_band) ''nodata'' \<noteq> None"
    by (simp add: attrs_of_def example_store_def example_band_def)
  have h3: "cast Int16 (- 999) = - 999"
    by (simp add: cast_def trunc_def narrow_int_def)
  from h1 h2 h3
    scale_and_clip_errors [of example_store example_band_no_nodata "11 / 40" "- 2000" "Some (0, 10000)" "- 999" Int16]
    scale_and_clip_errors [of example_store example_band "11 / 40" "- 2000" "Some (0, 10000)" "- 999" Int16]
  show ?thesis by blast
qed

text \<open>
  C5 as stated fails: the exception for the missing nodata attribute is not a
  \<open>ConfigurationError\<close>.
\<close>

theorem scale_and_clip_not_configuration_error:
  "fst (scale_and_clip_dataarray example_band_no_nodata (11 / 40) (- 2000) (Some (0, 10000)) (- 999)
      Int16 example_store) \<noteq> Inl ConfigurationError"
  by (simp add: scale_and_clip_dataarray_def example_store_def example_band_no_nodata_def)

subsection \<open>Claims about the constructor and the fake variant\<close>



text \<open>
  C7 (the code departs from the claim). The claim: the fake variant returns a cube with
  all four bands of the contract, pv, npv, bs and ue. Evaluated on the example cube: the
  result has the three bands pv, bs and npv and no band ue, while \<open>measurements\<close>, which
  the fake variant inherits, declares the four.
\<close>

theorem fake_compute_has_no_ue:
  "(case fake_compute (init None False False) example_cube example_cube_store of
      (Inr out, s') \<Rightarrow> map fst (data_vars out) = [''pv'', ''bs'', ''npv'']
    | (Inl e, s') \<Rightarrow> False)
   \<and> map fst (measurements (init None False False)) = [''pv'', ''npv'', ''bs'', ''ue'']"
  by (simp add: fake_compute_def init_def example_cube_def example_cube_store_def take_over_def alloc_dict_def
      attrs_of_def measurements_def FC_MEASUREMENTS_def)

subsection \<open>Stores that only grow\<close>

lemma extends_refl [simp]: "extends s s"
  by (simp add: extends_def)

lemma extends_trans: "extends s s1 \<Longrightarrow> extends s1 s2 \<Longrightarrow> extends s s2"
  unfolding extends_def by (meson prefix_order.trans)

lemma prefix_nth: "prefix xs ys \<Longrightarrow> i < length xs \<Longrightarrow> ys ! i = xs ! i"
  by (auto simp: prefix_def nth_append)

lemma extends_length:
  "extends s s' \<Longrightarrow> length (arrays s) \<le> length (arrays s') \<and> length (dicts s) \<le> length (dicts s')"
  by (simp add: extends_def prefix_length_le)

lemma extends_array: "extends s s' \<Longrightarrow> p < length (arrays s) \<Longrightarrow> arrays s' ! p = arrays s ! p"
  by (simp add: extends_def prefix_nth)

lemma extends_dict: "extends s s' \<Longrightarrow> q < length (dicts s) \<Longrightarrow> dicts s' ! q = dicts s ! q"
  by (simp add: extends_def prefix_nth)

lemma extends_values:
  "extends s s' \<Longrightarrow> wf_dataarray s da \<Longrightarrow> values_of s' da = values_of s da"
  by (simp add: values_of_def wf_dataarray_def extends_array)

lemma extends_attrs:
  "extends s s' \<Longrightarrow> wf_dataarray s da \<Longrightarrow> attrs_of s' da = attrs_of s da"
  by (simp add: attrs_of_def wf_dataarray_def extends_dict)

lemma extends_wf: "extends s s' \<Longrightarrow> wf_dataarray s da \<Longrightarrow> wf_dataarray s' da"
  using extends_length [of s s'] by (auto simp: wf_dataarray_def)

lemma alloc_dict_extends: "extends s (snd (alloc_dict d s))"
  by (simp add: alloc_dict_def extends_def)

lemma alloc_array_extends: "extends s (snd (alloc_array a s))"
  by (simp add: alloc_array_def extends_def)

lemma prefix_update_fresh: "prefix xs ys \<Longrightarrow> length xs \<le> i \<Longrightarrow> prefix xs (ys[i := v])"
  by (auto simp: prefix_def list_update_append)

lemma dict_setitem_extends:
  "extends s s1 \<Longrightarrow> length (dicts s) \<le> q \<Longrightarrow> extends s (dict_setitem q k v s1)"
  by (simp add: extends_def dict_setitem_def prefix_update_fresh)

lemma scale_and_clip_extends:
  "extends s (snd (scale_and_clip_dataarray da sf off cr nn dt s))"
  unfolding extends_def
  by (cases cr)
    (auto simp: scale_and_clip_dataarray_def elementwise_eq Let_def data_setitem_def
      set_attrs_def alloc_dict_def dict_setitem_def prefix_def split: option.splits)

lemma apply_vars_extends:
  assumes "\<And>da s. extends s (snd (f da s))"
  shows "extends s (snd (apply_vars f kvs s))"
proof (induction kvs arbitrary: s)
  case Nil
  show ?case by simp
next
  case (Cons kv kvs)
  obtain k v where kv: "kv = (k, v)" by (cases kv)
  obtain r s1 where f: "f v s = (r, s1)" by (cases "f v s")
  have e1: "extends s s1" using assms [of s v] f by simp
  show ?case
  proof (cases r)
    case (Inl e)
    then show ?thesis using e1 f kv by simp
  next
    case (Inr v')
    obtain r2 s2 where a: "apply_vars f kvs s1 = (r2, s2)" by (cases "apply_vars f kvs s1")
    have "extends s1 s2" using Cons.IH [of s1] a by simp
    then have "extends s s2" using e1 extends_trans by blast
    then show ?thesis using Inr f kv a by (cases r2) simp_all
  qed
qed

lemma apply_vars_scale_result:
  assumes "apply_vars (\<lambda>da. scale_and_clip_dataarray da sf off cr nn dt) kvs s1 = (Inr kvs', s')"
    and "extends s s1"
    and "list_all (\<lambda>kv. wf_dataarray s (snd kv)) kvs"
  shows "list_all2 (\<lambda>kv kv'. fst kv' = fst kv \<and> wf_dataarray s' (snd kv') \<and> window (snd kv') = None
            \<and> (\<exists>nd. map_of (attrs_of s (snd kv)) ''nodata'' = Some nd
                  \<and> values_of s' (snd kv') = map3 (scaled_cell sf off nn dt nd) (values_of s (snd kv))
                  \<and> attrs_of s' (snd kv') = AList.update ''nodata'' (Num nn) (attrs_of s (snd kv))))
          kvs kvs'"
  using assms
proof (induction kvs arbitrary: s1 kvs')
  case Nil
  then show ?case by simp
next
  case (Cons kv kvs)
  let ?f = "\<lambda>da. scale_and_clip_dataarray da sf off cr nn dt"
  obtain k v where kv: "kv = (k, v)" by (cases kv)
  obtain r s2 where f: "?f v s1 = (r, s2)" by (cases "?f v s1")
  obtain r2 s3 where a: "apply_vars ?f kvs s2 = (r2, s3)" by (cases "apply_vars ?f kvs s2")
  from Cons.prems(1) kv f a obtain v' rest where
    r: "r = Inr v'" and r2: "r2 = Inr rest" and kvs': "kvs' = (k, v') # rest" and s3: "s3 = s'"
    by (cases r; cases r2) auto
  have wfv: "wf_dataarray s v" using Cons.prems(3) kv by simp
  then have wfv1: "wf_dataarray s1 v" using Cons.prems(2) extends_wf by blast
  have e12: "extends s1 s2" using scale_and_clip_extends [of s1 v sf off cr nn dt] f by simp
  have e23: "extends s2 s'" using apply_vars_extends [of ?f s2 kvs] scale_and_clip_extends a s3 by simp
  obtain nd where nd1: "map_of (dicts s1 ! attrs v) ''nodata'' = Some nd"
    using f r by (cases "map_of (dicts s1 ! attrs v) ''nodata''") (auto simp: scale_and_clip_dataarray_def)
  from scale_and_clip_result [OF nd1, of sf off cr nn dt] wfv1 f r
  have v': "values_of s2 v' = map3 (scaled_cell sf off nn dt nd) (values_of s1 v)"
    "attrs_of s2 v' = AList.update ''nodata'' (Num nn) (dicts s1 ! attrs v)"
    "wf_dataarray s2 v'" "window v' = None"
    by (auto simp: wf_dataarray_def)
  have a1: "attrs_of s1 v = attrs_of s v" using extends_attrs Cons.prems(2) wfv by blast
  have "values_of s' v' = map3 (scaled_cell sf off nn dt nd) (values_of s v)"
    using v' e23 extends_values Cons.prems(2) wfv by metis
  moreover have "attrs_of s' v' = AList.update ''nodata'' (Num nn) (attrs_of s v)"
    using v' e23 extends_attrs a1 by (metis attrs_of_def)
  moreover have "map_of (attrs_of s v) ''nodata'' = Some nd"
    using nd1 a1 by (simp add: attrs_of_def)
  moreover have "wf_dataarray s' v'" using v'(3) e23 extends_wf by blast
  moreover have "list_all2 (\<lambda>kv kv'. fst kv' = fst kv \<and> wf_dataarray s' (snd kv') \<and> window (snd kv') = None
            \<and> (\<exists>nd. map_of (attrs_of s (snd kv)) ''nodata'' = Some nd
                  \<and> values_of s' (snd kv') = map3 (scaled_cell sf off nn dt nd) (values_of s (snd kv))
                  \<and> attrs_of s' (snd kv') = AList.update ''nodata'' (Num nn) (attrs_of s (snd kv))))
          kvs rest"
    using Cons.IH [of s2 rest] a r2 s3 Cons.prems(2,3) e12 extends_trans by auto
  ultimately show ?case using kv kvs' v'(4) by simp
qed


lemma view_narrow: "view (narrow n n w) a = cut n (view w a)"
  by (cases w) (auto simp: view_def narrow_def cut_def take_map min.commute)

lemma length_map3 [simp]: "length (map3 f a) = length a"
  by (simp add: map3_def)

lemma length_cut [simp]: "length (cut n a) = length a"
  by (simp add: cut_def)

lemma isel_xy_vars_result:
  assumes "isel_xy_vars n n kvs s1 = (kvs', s')"
    and "extends s s1"
    and "list_all (\<lambda>kv. wf_dataarray s (snd kv)) kvs"
  shows "extends s1 s' \<and> arrays s' = arrays s1
       \<and> list_all2 (\<lambda>kv kv'. fst kv' = fst kv \<and> wf_dataarray s' (snd kv')
              \<and> values_of s' (snd kv') = cut n (values_of s (snd kv))
              \<and> attrs_of s' (snd kv') = attrs_of s (snd kv))
            kvs kvs'"
  using assms
proof (induction kvs arbitrary: s1 kvs')
  case Nil
  then show ?case by simp
next
  case (Cons kv kvs)
  obtain k v where kv: "kv = (k, v)" by (cases kv)
  define s2 where "s2 = s1\<lparr>dicts := dicts s1 @ [attrs_of s1 v]\<rparr>"
  define v' where "v' = \<lparr>data = data v, window = narrow n n (window v), attrs = length (dicts s1)\<rparr>"
  obtain rest s3 where a: "isel_xy_vars n n kvs s2 = (rest, s3)" by (cases "isel_xy_vars n n kvs s2")
  from Cons.prems(1) kv a have kvs': "kvs' = (k, v') # rest" and s3: "s3 = s'"
    by (auto simp: alloc_dict_def s2_def v'_def)
  have wfv: "wf_dataarray s v" using Cons.prems(3) kv by simp
  have wfv1: "wf_dataarray s1 v" using wfv Cons.prems(2) extends_wf by blast
  have e12: "extends s1 s2" by (simp add: s2_def extends_def)
  have e02: "extends s s2" using Cons.prems(2) e12 extends_trans by blast
  have IH: "extends s2 s' \<and> arrays s' = arrays s2
       \<and> list_all2 (\<lambda>kv kv'. fst kv' = fst kv \<and> wf_dataarray s' (snd kv')
              \<and> values_of s' (snd kv') = cut n (values_of s (snd kv))
              \<and> attrs_of s' (snd kv') = attrs_of s (snd kv))
            kvs rest"
    using Cons.IH [of s2 rest] a s3 e02 Cons.prems(3) by simp
  have wf2: "wf_dataarray s2 v'" using wfv1 by (simp add: wf_dataarray_def s2_def v'_def)
  have val2: "values_of s2 v' = cut n (values_of s1 v)"
    by (simp add: values_of_def v'_def s2_def view_narrow)
  have att2: "attrs_of s2 v' = attrs_of s1 v"
    by (simp add: attrs_of_def v'_def s2_def)
  have "values_of s' v' = cut n (values_of s v)"
    using val2 IH wf2 extends_values wfv Cons.prems(2) by metis
  moreover have "attrs_of s' v' = attrs_of s v"
    using att2 IH wf2 extends_attrs wfv Cons.prems(2) by metis
  moreover have "wf_dataarray s' v'" using wf2 IH extends_wf by blast
  moreover have "extends s1 s'" using e12 IH extends_trans by blast
  moreover have "arrays s' = arrays s1" using IH by (simp add: s2_def)
  ultimately show ?case using IH kv kvs' by simp
qed

lemma isel_xy_result:
  assumes "isel_xy n n ds s = (ds', s')" and "wf_dataset s ds"
  shows "extends s s' \<and> wf_dataset s' ds' \<and> time ds' = time ds
       \<and> dicts s' ! ds_attrs ds' = dicts s ! ds_attrs ds
       \<and> list_all2 (\<lambda>kv kv'. fst kv' = fst kv
              \<and> values_of s' (snd kv') = cut n (values_of s (snd kv))
              \<and> attrs_of s' (snd kv') = attrs_of s (snd kv))
            (data_vars ds) (data_vars ds')"
proof -
  obtain kvs s1 where v: "isel_xy_vars n n (data_vars ds) s = (kvs, s1)"
    by (cases "isel_xy_vars n n (data_vars ds) s")
  from assms(1) v have ds': "ds' = \<lparr>data_vars = kvs, time = time ds, ds_attrs = length (dicts s1)\<rparr>"
    and s': "s' = s1\<lparr>dicts := dicts s1 @ [dicts s1 ! ds_attrs ds]\<rparr>"
    by (auto simp: isel_xy_def alloc_dict_def)
  have wfs: "list_all (\<lambda>kv. wf_dataarray s (snd kv)) (data_vars ds)"
    using assms(2) by (auto simp: wf_dataset_def list_all_iff)
  from isel_xy_vars_result [OF v extends_refl wfs]
  have e1: "extends s s1"
    and r: "list_all2 (\<lambda>kv kv'. fst kv' = fst kv \<and> wf_dataarray s1 (snd kv')
              \<and> values_of s1 (snd kv') = cut n (values_of s (snd kv))
              \<and> attrs_of s1 (snd kv') = attrs_of s (snd kv)) (data_vars ds) kvs"
    by simp_all
  have e2: "extends s1 s'" by (simp add: s' extends_def)
  have e: "extends s s'" using e1 e2 extends_trans by blast
  have q: "ds_attrs ds < length (dicts s)" using assms(2) by (simp add: wf_dataset_def)
  have "dicts s' ! ds_attrs ds' = dicts s ! ds_attrs ds"
    using extends_dict [OF e1 q] by (simp add: s' ds')
  moreover have r': "list_all2 (\<lambda>kv kv'. fst kv' = fst kv \<and> wf_dataarray s' (snd kv')
              \<and> values_of s' (snd kv') = cut n (values_of s (snd kv))
              \<and> attrs_of s' (snd kv') = attrs_of s (snd kv)) (data_vars ds) kvs"
    using r e2 by (auto simp: list_all2_conv_all_nth extends_values extends_attrs extends_wf)
  moreover have "wf_dataset s' ds'"
    using r' assms(2)
    by (auto simp: wf_dataset_def ds' s' list_all2_conv_all_nth list_all_length)
  ultimately show ?thesis using e r' by (auto simp: ds' list_all2_conv_all_nth)
qed

lemma scale_usgs_result:
  assumes "scale_usgs_collection2 ds s = (Inr ds', s')" and "wf_dataset s ds"
  shows "extends s s' \<and> wf_dataset s' ds' \<and> time ds' = time ds
       \<and> dicts s' ! ds_attrs ds' = dicts s ! ds_attrs ds
       \<and> list_all2 (\<lambda>kv kv'. fst kv' = fst kv
              \<and> (\<exists>nd. map_of (attrs_of s (snd kv)) ''nodata'' = Some nd
                    \<and> values_of s' (snd kv')
                        = map3 (scaled_cell (11 / 40) (- 2000) (- 999) Int16 nd) (values_of s (snd kv))))
            (data_vars ds) (data_vars ds')"
proof -
  let ?f = "\<lambda>da. scale_and_clip_dataarray da (11 / 40) (- 2000) (Some (0, 10000)) (- 999) Int16"
  obtain r s1 where v: "apply_vars ?f (data_vars ds) s = (r, s1)"
    by (cases "apply_vars ?f (data_vars ds) s")
  from assms(1) v obtain kvs where r: "r = Inr kvs"
    and ds': "ds' = \<lparr>data_vars = kvs, time = time ds, ds_attrs = length (dicts s1)\<rparr>"
    and s': "s' = s1\<lparr>dicts := dicts s1 @ [dicts s1 ! ds_attrs ds]\<rparr>"
    by (cases r) (auto simp: scale_usgs_collection2_def dataset_apply_def alloc_dict_def)
  have wfs: "list_all (\<lambda>kv. wf_dataarray s (snd kv)) (data_vars ds)"
    using assms(2) by (auto simp: wf_dataset_def list_all_iff)
  have e1: "extends s s1"
    using apply_vars_extends [of ?f s "data_vars ds"] scale_and_clip_extends v by simp
  from apply_vars_scale_result [OF _ extends_refl wfs, of "11 / 40" "- 2000" "Some (0, 10000)" "- 999" Int16 kvs s1]
    v r
  have rel: "list_all2 (\<lambda>kv kv'. fst kv' = fst kv \<and> wf_dataarray s1 (snd kv') \<and> window (snd kv') = None
            \<and> (\<exists>nd. map_of (attrs_of s (snd kv)) ''nodata'' = Some nd
                  \<and> values_of s1 (snd kv') = map3 (scaled_cell (11 / 40) (- 2000) (- 999) Int16 nd) (values_of s (snd kv))
                  \<and> attrs_of s1 (snd kv') = AList.update ''nodata'' (Num (- 999)) (attrs_of s (snd kv))))
          (data_vars ds) kvs"
    by simp
  have e2: "extends s1 s'" by (simp add: s' extends_def)
  have e: "extends s s'" using e1 e2 extends_trans by blast
  have q: "ds_attrs ds < length (dicts s)" using assms(2) by (simp add: wf_dataset_def)
  have "dicts s' ! ds_attrs ds' = dicts s ! ds_attrs ds"
    using extends_dict [OF e1 q] by (simp add: s' ds')
  moreover have r': "list_all2 (\<lambda>kv kv'. fst kv' = fst kv \<and> wf_dataarray s' (snd kv')
              \<and> (\<exists>nd. map_of (attrs_of s (snd kv)) ''nodata'' = Some nd
                    \<and> values_of s' (snd kv')
                        = map3 (scaled_cell (11 / 40) (- 2000) (- 999) Int16 nd) (values_of s (snd kv))))
            (data_vars ds) kvs"
    using rel e2 by (auto simp: list_all2_conv_all_nth extends_values extends_wf)
  moreover have "wf_dataset s' ds'"
    using r' assms(2)
    by (auto simp: wf_dataset_def ds' s' list_all2_conv_all_nth list_all_length)
  ultimately show ?thesis using e r' by (auto simp: ds' list_all2_conv_all_nth)
qed


lemma scale_usgs_extends: "extends s (snd (scale_usgs_collection2 ds s))"
proof -
  let ?f = "\<lambda>da. scale_and_clip_dataarray da (11 / 40) (- 2000) (Some (0, 10000)) (- 999) Int16"
  obtain r s1 where v: "apply_vars ?f (data_vars ds) s = (r, s1)"
    by (cases "apply_vars ?f (data_vars ds) s")
  have e1: "extends s s1"
    using apply_vars_extends [of ?f s "data_vars ds"] scale_and_clip_extends v by simp
  have "extends s1 (s1\<lparr>dicts := dicts s1 @ [dicts s1 ! ds_attrs ds]\<rparr>)" by (simp add: extends_def)
  then have "extends s (s1\<lparr>dicts := dicts s1 @ [dicts s1 ! ds_attrs ds]\<rparr>)"
    using e1 extends_trans by blast
  then show ?thesis using v e1
    by (cases r) (simp_all add: scale_usgs_collection2_def dataset_apply_def alloc_dict_def)
qed

lemma isel_xy_extends: "extends s (snd (isel_xy n n ds s))"
proof -
  have vars: "extends s1 (snd (isel_xy_vars n n kvs s1))" for kvs s1
  proof (induction kvs arbitrary: s1)
    case Nil
    show ?case by simp
  next
    case (Cons kv kvs)
    obtain k v where kv: "kv = (k, v)" by (cases kv)
    let ?s2 = "s1\<lparr>dicts := dicts s1 @ [attrs_of s1 v]\<rparr>"
    have "extends s1 ?s2" by (simp add: extends_def)
    then have "extends s1 (snd (isel_xy_vars n n kvs ?s2))"
      using Cons.IH [of ?s2] extends_trans by blast
    then show ?case by (simp add: kv alloc_dict_def split_def Let_def)
  qed
  obtain kvs s1 where v: "isel_xy_vars n n (data_vars ds) s = (kvs, s1)"
    by (cases "isel_xy_vars n n (data_vars ds) s")
  have e1: "extends s s1" using vars [of s "data_vars ds"] v by simp
  have "extends s1 (s1\<lparr>dicts := dicts s1 @ [dicts s1 ! ds_attrs ds]\<rparr>)" by (simp add: extends_def)
  then show ?thesis using v e1 extends_trans
    by (auto simp: isel_xy_def alloc_dict_def)
qed

lemma prepare_extends: "extends s (snd (prepare self ds s))"
proof -
  obtain ds1 s1 where i: "isel_xy 100 100 ds s = (ds1, s1)" by (cases "isel_xy 100 100 ds s")
  have e1: "extends s s1" using isel_xy_extends [of s 100 ds] i by simp
  have "extends s1 (snd (scale_usgs_collection2 ds1 s1))" by (rule scale_usgs_extends)
  then have "extends s (snd (scale_usgs_collection2 ds1 s1))" using e1 extends_trans by blast
  then show ?thesis using i e1 scale_usgs_extends [of s ds]
    by (simp add: prepare_def)
qed

lemma prepare_result:
  assumes "prepare self ds s = (Inr ds2, s2)" and "wf_dataset s ds"
  shows "extends s s2 \<and> wf_dataset s2 ds2 \<and> time ds2 = time ds
       \<and> dicts s2 ! ds_attrs ds2 = dicts s ! ds_attrs ds
       \<and> list_all2 (\<lambda>kv kv'. fst kv' = fst kv
              \<and> values_of s2 (snd kv') = prepared_values self (attrs_of s (snd kv)) (values_of s (snd kv)))
            (data_vars ds) (data_vars ds2)"
proof -
  obtain ds1 s1 where i: "(if test_mode self then isel_xy 100 100 ds s else (ds, s)) = (ds1, s1)"
    by (cases "if test_mode self then isel_xy 100 100 ds s else (ds, s)")
  have one: "extends s s1 \<and> wf_dataset s1 ds1 \<and> time ds1 = time ds
       \<and> dicts s1 ! ds_attrs ds1 = dicts s ! ds_attrs ds
       \<and> list_all2 (\<lambda>kv kv'. fst kv' = fst kv
              \<and> values_of s1 (snd kv') = (if test_mode self then cut 100 (values_of s (snd kv)) else values_of s (snd kv))
              \<and> attrs_of s1 (snd kv') = attrs_of s (snd kv))
            (data_vars ds) (data_vars ds1)"
  proof (cases "test_mode self")
    case True
    with i have "isel_xy 100 100 ds s = (ds1, s1)" by simp
    from isel_xy_result [OF this assms(2)] True show ?thesis by simp
  next
    case False
    with i have "ds1 = ds" "s1 = s" by simp_all
    then show ?thesis using assms(2) False by (simp add: list_all2_conv_all_nth)
  qed
  show ?thesis
  proof (cases "c2_scaling self")
    case False
    with assms(1) i have "ds2 = ds1" "s2 = s1" by (simp_all add: prepare_def)
    then show ?thesis using one False
      by (auto simp: list_all2_conv_all_nth prepared_values_def)
  next
    case True
    with assms(1) i have sc: "scale_usgs_collection2 ds1 s1 = (Inr ds2, s2)"
      by (simp add: prepare_def)
    have wf1: "wf_dataset s1 ds1" using one by simp
    from scale_usgs_result [OF sc wf1]
    have two: "extends s1 s2" "wf_dataset s2 ds2" "time ds2 = time ds1"
      "dicts s2 ! ds_attrs ds2 = dicts s1 ! ds_attrs ds1"
      "list_all2 (\<lambda>kv kv'. fst kv' = fst kv
              \<and> (\<exists>nd. map_of (attrs_of s1 (snd kv)) ''nodata'' = Some nd
                    \<and> values_of s2 (snd kv')
                        = map3 (scaled_cell (11 / 40) (- 2000) (- 999) Int16 nd) (values_of s1 (snd kv))))
            (data_vars ds1) (data_vars ds2)"
      by simp_all
    have "list_all2 (\<lambda>kv kv'. fst kv' = fst kv
              \<and> values_of s2 (snd kv') = prepared_values self (attrs_of s (snd kv)) (values_of s (snd kv)))
            (data_vars ds) (data_vars ds2)"
      using one two(5) True
      by (auto simp: list_all2_conv_all_nth prepared_values_def)
    then show ?thesis using one two extends_trans by auto
  qed
qed


subsection \<open>The loop and the concatenation\<close>

lemma unmix_loop_Inr:
  "unmix_loop self u ds s idxs = Inr rs
     \<longleftrightarrow> list_all2 (\<lambda>i r. unmix_at self u ds s i = Inr r) idxs rs"
proof (induction idxs arbitrary: rs)
  case Nil
  show ?case by auto
next
  case (Cons i idxs)
  show ?case
  proof (cases "unmix_at self u ds s i")
    case (Inl e)
    then show ?thesis by (auto simp: list_all2_Cons1)
  next
    case (Inr r)
    then show ?thesis using Cons.IH
      by (cases "unmix_loop self u ds s idxs") (auto simp: list_all2_Cons1)
  qed
qed

lemma alloc_vars_result:
  assumes "alloc_vars xs s1 = (kvs, s')"
  shows "extends s1 s'
       \<and> list_all2 (\<lambda>x kv. fst kv = fst x \<and> wf_dataarray s' (snd kv)
              \<and> values_of s' (snd kv) = fst (snd x) \<and> attrs_of s' (snd kv) = snd (snd x)
              \<and> length (arrays s1) \<le> data (snd kv) \<and> length (dicts s1) \<le> attrs (snd kv))
            xs kvs"
  using assms
proof (induction xs arbitrary: s1 kvs)
  case Nil
  then show ?case by simp
next
  case (Cons x xs)
  obtain k a d where x: "x = (k, a, d)" by (cases x)
  define s2 where "s2 = s1\<lparr>arrays := arrays s1 @ [a], dicts := dicts s1 @ [d]\<rparr>"
  define da where "da = \<lparr>data = length (arrays s1), window = None, attrs = length (dicts s1)\<rparr>"
  obtain rest s3 where r: "alloc_vars xs s2 = (rest, s3)" by (cases "alloc_vars xs s2")
  from Cons.prems x r have kvs: "kvs = (k, da) # rest" and s3: "s3 = s'"
    by (auto simp: alloc_array_def alloc_dict_def s2_def da_def)
  have e12: "extends s1 s2" by (simp add: s2_def extends_def)
  have IH: "extends s2 s'
       \<and> list_all2 (\<lambda>x kv. fst kv = fst x \<and> wf_dataarray s' (snd kv)
              \<and> values_of s' (snd kv) = fst (snd x) \<and> attrs_of s' (snd kv) = snd (snd x)
              \<and> length (arrays s2) \<le> data (snd kv) \<and> length (dicts s2) \<le> attrs (snd kv))
            xs rest"
    using Cons.IH [of s2 rest] r s3 by simp
  have wf2: "wf_dataarray s2 da" by (simp add: wf_dataarray_def s2_def da_def)
  have "values_of s2 da = a" by (simp add: values_of_def view_def s2_def da_def)
  then have "values_of s' da = a" using IH wf2 extends_values by metis
  moreover have "attrs_of s2 da = d" by (simp add: attrs_of_def s2_def da_def)
  then have "attrs_of s' da = d" using IH wf2 extends_attrs by metis
  moreover have "wf_dataarray s' da" using IH wf2 extends_wf by blast
  moreover have "extends s1 s'" using e12 IH extends_trans by blast
  moreover have "list_all2 (\<lambda>x kv. fst kv = fst x \<and> wf_dataarray s' (snd kv)
              \<and> values_of s' (snd kv) = fst (snd x) \<and> attrs_of s' (snd kv) = snd (snd x)
              \<and> length (arrays s1) \<le> data (snd kv) \<and> length (dicts s1) \<le> attrs (snd kv))
            xs rest"
    using IH by (auto simp: list_all2_conv_all_nth s2_def)
  ultimately show ?case using x kvs by (simp add: da_def)
qed

lemma xr_concat_result:
  assumes "xr_concat objs s = (Inr fcd, s')"
  shows "objs \<noteq> [] \<and> extends s s' \<and> time fcd = map slice_time objs
       \<and> length (dicts s) \<le> ds_attrs fcd \<and> ds_attrs fcd < length (dicts s')
       \<and> map fst (data_vars fcd) = map fst (bands (hd objs))
       \<and> list_all (\<lambda>kv. wf_dataarray s' (snd kv)
              \<and> values_of s' (snd kv) = map (\<lambda>sl. grid_of sl (fst kv)) objs)
            (data_vars fcd)"
proof (cases objs)
  case Nil
  with assms show ?thesis by (simp add: xr_concat_def)
next
  case (Cons first rest)
  let ?xs = "map (\<lambda>(k, g, d). (k, map (\<lambda>sl. grid_of sl k) objs, d)) (bands first)"
  obtain kvs s1 where a: "alloc_vars ?xs s = (kvs, s1)" by (cases "alloc_vars ?xs s")
  from assms Cons a have fcd: "fcd = \<lparr>data_vars = kvs, time = map slice_time objs, ds_attrs = length (dicts s1)\<rparr>"
    and s': "s' = s1\<lparr>dicts := dicts s1 @ [slice_attrs first]\<rparr>"
    by (auto simp: xr_concat_def alloc_dict_def split: if_splits)
  from alloc_vars_result [OF a]
  have e1: "extends s s1"
    and rel: "list_all2 (\<lambda>x kv. fst kv = fst x \<and> wf_dataarray s1 (snd kv)
              \<and> values_of s1 (snd kv) = fst (snd x)) ?xs kvs"
    by (auto simp: list_all2_conv_all_nth)
  have e2: "extends s1 s'" by (simp add: s' extends_def)
  have names: "map fst kvs = map fst (bands first)"
    using rel by (auto simp: list_all2_conv_all_nth split_def intro!: nth_equalityI)
  have vals: "list_all (\<lambda>kv. wf_dataarray s' (snd kv)
              \<and> values_of s' (snd kv) = map (\<lambda>sl. grid_of sl (fst kv)) objs) kvs"
    using rel e2
    by (auto simp: list_all2_conv_all_nth list_all_length split_def extends_values extends_wf)
  have "length (dicts s) \<le> length (dicts s1)" using e1 extends_length by blast
  then show ?thesis using Cons e1 e2 extends_trans names vals
    by (auto simp: fcd s')
qed


lemma xr_concat_extends: "extends s (snd (xr_concat objs s))"
proof (cases "xr_concat objs s")
  case (Pair r s')
  show ?thesis
  proof (cases r)
    case (Inl e)
    with Pair have "s' = s"
      by (auto simp: xr_concat_def split_def Let_def split: list.splits if_splits)
    then show ?thesis using Pair by simp
  next
    case (Inr fcd)
    with Pair xr_concat_result [of objs s fcd s'] show ?thesis by simp
  qed
qed

subsection \<open>compute, step by step\<close>

lemma rename_keeps:
  assumes "rename nd ds = Inr out"
  shows "ds_attrs out = ds_attrs ds \<and> time out = time ds
       \<and> map snd (data_vars out) = map snd (data_vars ds)"
  using assms by (auto simp: rename_def Let_def split_def comp_def split: if_splits)

lemma rename_error: "rename nd ds = Inl e \<Longrightarrow> e = ValueError"
  by (auto simp: rename_def Let_def split: if_splits)

lemma compute_Inr:
  assumes "compute self u ds s = (Inr out, s')"
  obtains ds2 s2 fc fcd s3 crs where
    "prepare self ds s = (Inr ds2, s2)"
    "unmix_loop self u ds2 s2 [0..<length (time ds2)] = Inr fc"
    "xr_concat fc s2 = (Inr fcd, s3)"
    "map_of (dicts s3 ! ds_attrs ds2) ''crs'' = Some crs"
    "s' = dict_setitem (ds_attrs fcd) ''crs'' crs s3"
    "rename band_renames fcd = Inr out \<or> (rename band_renames fcd = Inl ValueError \<and> out = fcd)"
proof -
  obtain r1 s2 where p: "prepare self ds s = (r1, s2)" by (cases "prepare self ds s")
  with assms obtain ds2 where r1: "r1 = Inr ds2" by (cases r1) (auto simp: compute_def)
  obtain fc where l: "unmix_loop self u ds2 s2 [0..<length (time ds2)] = Inr fc"
    using assms p r1 by (cases "unmix_loop self u ds2 s2 [0..<length (time ds2)]") (auto simp: compute_def)
  obtain r3 s3 where c: "xr_concat fc s2 = (r3, s3)" by (cases "xr_concat fc s2")
  with assms p r1 l obtain fcd where r3: "r3 = Inr fcd" by (cases r3) (auto simp: compute_def)
  obtain crs where crs: "map_of (dicts s3 ! ds_attrs ds2) ''crs'' = Some crs"
    using assms p r1 l c r3 by (cases "map_of (dicts s3 ! ds_attrs ds2) ''crs''") (auto simp: compute_def)
  have fin: "(case rename band_renames fcd of
               Inl ValueError \<Rightarrow> (Inr fcd, dict_setitem (ds_attrs fcd) ''crs'' crs s3)
             | Inl e \<Rightarrow> (Inl e, dict_setitem (ds_attrs fcd) ''crs'' crs s3)
             | Inr renamed \<Rightarrow> (Inr renamed, dict_setitem (ds_attrs fcd) ''crs'' crs s3)) = (Inr out, s')"
    using assms p r1 l c r3 crs by (simp add: compute_def Let_def)
  have s': "s' = dict_setitem (ds_attrs fcd) ''crs'' crs s3"
    using fin by (auto split: sum.splits error.splits)
  have "rename band_renames fcd = Inr out \<or> (rename band_renames fcd = Inl ValueError \<and> out = fcd)"
    using fin by (auto split: sum.splits error.splits)
  then show ?thesis using that p r1 l c r3 crs s' by blast
qed

lemma dict_setitem_arrays [simp]: "arrays (dict_setitem q k v s) = arrays s"
  by (simp add: dict_setitem_def)

lemma dict_setitem_values [simp]: "values_of (dict_setitem q k v s) da = values_of s da"
  by (simp add: values_of_def)

lemma dict_setitem_lookup:
  "q < length (dicts s) \<Longrightarrow> map_of (dicts (dict_setitem q k v s) ! q) k = Some v"
  by (simp add: dict_setitem_def update_conv')

lemma compute_extends: "extends s (snd (compute self u ds s))"
proof -
  obtain r1 s2 where p: "prepare self ds s = (r1, s2)" by (cases "prepare self ds s")
  have e2: "extends s s2" using prepare_extends [of s self ds] p by simp
  show ?thesis
  proof (cases r1)
    case (Inl e)
    then show ?thesis using p e2 by (simp add: compute_def)
  next
    case (Inr ds2)
    show ?thesis
    proof (cases "unmix_loop self u ds2 s2 [0..<length (time ds2)]")
      case (Inl e)
      then show ?thesis using p Inr e2 by (simp add: compute_def)
    next
      case fc: (Inr fc)
      obtain r3 s3 where c: "xr_concat fc s2 = (r3, s3)" by (cases "xr_concat fc s2")
      have e3: "extends s s3" using xr_concat_extends [of s2 fc] c e2 extends_trans by fastforce
      show ?thesis
      proof (cases r3)
        case (Inl e)
        then show ?thesis using p Inr fc c e3 by (simp add: compute_def)
      next
        case fcd: (Inr fcd)
        have "length (dicts s2) \<le> ds_attrs fcd" using xr_concat_result [of fc s2 fcd s3] c fcd by simp
        then have fresh: "length (dicts s) \<le> ds_attrs fcd" using e2 extends_length [of s s2] by simp
        have e4: "extends s (dict_setitem (ds_attrs fcd) ''crs'' v s3)" for v
          using dict_setitem_extends [OF e3 fresh] .
        show ?thesis
        proof (cases "map_of (dicts s3 ! ds_attrs ds2) ''crs''")
          case None
          then show ?thesis using p Inr fc c fcd e3 by (simp add: compute_def)
        next
          case (Some crs)
          have "snd (compute self u ds s) = dict_setitem (ds_attrs fcd) ''crs'' crs s3"
          proof (cases "rename band_renames fcd")
            case (Inl e)
            then have "e = ValueError" by (rule rename_error)
            then show ?thesis using p Inr fc c fcd Some Inl by (simp add: compute_def)
          next
            case rn: (Inr renamed)
            then show ?thesis using p Inr fc c fcd Some by (simp add: compute_def)
          qed
          then show ?thesis using e4 by simp
        qed
      qed
    qed
  qed
qed

text \<open>
  C8. Whenever \<open>compute\<close> returns a cube for a well-formed input cube, the \<open>crs\<close>
  attribute of the returned cube is the \<open>crs\<close> attribute of the input cube, with the
  scaling on or off (and the input cube has one: without it \<open>compute\<close> raises).
\<close>

theorem compute_crs:
  assumes "compute self fractional_cover ds s = (Inr out, s')" and "wf_dataset s ds"
  shows "map_of (dicts s' ! ds_attrs out) ''crs'' = map_of (dicts s ! ds_attrs ds) ''crs''
       \<and> map_of (dicts s ! ds_attrs ds) ''crs'' \<noteq> None"
proof (rule compute_Inr [OF assms(1)])
  fix ds2 s2 fc fcd s3 crs
  assume p: "prepare self ds s = (Inr ds2, s2)"
    and c: "xr_concat fc s2 = (Inr fcd, s3)"
    and crs: "map_of (dicts s3 ! ds_attrs ds2) ''crs'' = Some crs"
    and s': "s' = dict_setitem (ds_attrs fcd) ''crs'' crs s3"
    and rn: "rename band_renames fcd = Inr out \<or> (rename band_renames fcd = Inl ValueError \<and> out = fcd)"
  from prepare_result [OF p assms(2)]
  have wf2: "wf_dataset s2 ds2" and same: "dicts s2 ! ds_attrs ds2 = dicts s ! ds_attrs ds"
    by simp_all
  from xr_concat_result [OF c]
  have e3: "extends s2 s3" and q: "ds_attrs fcd < length (dicts s3)" by simp_all
  have q2: "ds_attrs ds2 < length (dicts s2)" using wf2 by (simp add: wf_dataset_def)
  have "dicts s3 ! ds_attrs ds2 = dicts s2 ! ds_attrs ds2"
    by (rule extends_dict [OF e3 q2])
  then have inp: "map_of (dicts s ! ds_attrs ds) ''crs'' = Some crs" using crs same by simp
  have a: "ds_attrs out = ds_attrs fcd"
  proof (rule disjE [OF rn])
    assume "rename band_renames fcd = Inr out"
    then show ?thesis using rename_keeps by blast
  next
    assume "rename band_renames fcd = Inl ValueError \<and> out = fcd"
    then show ?thesis by simp
  qed
  have "map_of (dicts (dict_setitem (ds_attrs fcd) ''crs'' crs s3) ! ds_attrs fcd) ''crs'' = Some crs"
    by (rule dict_setitem_lookup [OF q])
  then have "map_of (dicts s' ! ds_attrs out) ''crs'' = Some crs"
    unfolding s' a .
  then show ?thesis using inp by simp
qed

subsection \<open>Coordinate reference system and frame\<close>

theorem compute_crs_witness:
  "wf_dataset tiny_store tiny_cube
   \<and> fst (compute (init None True True) (example_unmix True) tiny_cube tiny_store)
       = Inr \<lparr>data_vars =
               [(''pv'', \<lparr>data = 5, window = None, attrs = 10\<rparr>),
                (''npv'', \<lparr>data = 6, window = None, attrs = 11\<rparr>),
                (''bs'', \<lparr>data = 7, window = None, attrs = 12\<rparr>),
                (''ue'', \<lparr>data = 8, window = None, attrs = 13\<rparr>)],
              time = [0], ds_attrs = 14\<rparr>
   \<and> map_of (dicts (snd (compute (init None True True) (example_unmix True) tiny_cube tiny_store)) ! 14)
        ''crs'' = Some (Str ''EPSG:32655'')
   \<and> fst (compute (init None False False) (example_unmix False) tiny_cube tiny_store)
       = Inr \<lparr>data_vars =
               [(''pv'', \<lparr>data = 1, window = None, attrs = 2\<rparr>),
                (''npv'', \<lparr>data = 2, window = None, attrs = 3\<rparr>),
                (''bs'', \<lparr>data = 3, window = None, attrs = 4\<rparr>),
                (''ue'', \<lparr>data = 4, window = None, attrs = 5\<rparr>)],
              time = [0], ds_attrs = 6\<rparr>
   \<and> map_of (dicts (snd (compute (init None False False) (example_unmix False) tiny_cube tiny_store)) ! 6)
        ''crs'' = Some (Str ''EPSG:32655'')"
proof -
  let ?on = "compute (init None True True) (example_unmix True) tiny_cube tiny_store"
  let ?off = "compute (init None False False) (example_unmix False) tiny_cube tiny_store"
  let ?out_on = "\<lparr>data_vars =
               [(''pv'', \<lparr>data = 5, window = None, attrs = 10\<rparr>),
                (''npv'', \<lparr>data = 6, window = None, attrs = 11\<rparr>),
                (''bs'', \<lparr>data = 7, window = None, attrs = 12\<rparr>),
                (''ue'', \<lparr>data = 8, window = None, attrs = 13\<rparr>)],
              time = [0], ds_attrs = 14\<rparr>"
  let ?out_off = "\<lparr>data_vars =
               [(''pv'', \<lparr>data = 1, window = None, attrs = 2\<rparr>),
                (''npv'', \<lparr>data = 2, window = None, attrs = 3\<rparr>),
                (''bs'', \<lparr>data = 3, window = None, attrs = 4\<rparr>),
                (''ue'', \<lparr>data = 4, window = None, attrs = 5\<rparr>)],
              time = [0], ds_attrs = 6\<rparr>"
  have wf: "wf_dataset tiny_store tiny_cube" by code_simp
  have on: "fst ?on = Inr ?out_on" by code_simp
  have off: "fst ?off = Inr ?out_off" by code_simp
  have crs: "map_of (dicts tiny_store ! ds_attrs tiny_cube) ''crs'' = Some (Str ''EPSG:32655'')"
    by (simp add: tiny_store_def tiny_cube_def)
  have on': "?on = (Inr ?out_on, snd ?on)" using on by (simp add: prod_eq_iff)
  have off': "?off = (Inr ?out_off, snd ?off)" using off by (simp add: prod_eq_iff)
  from compute_crs [OF on' wf] crs
  have a: "map_of (dicts (snd ?on) ! 14) ''crs'' = Some (Str ''EPSG:32655'')" by simp
  from compute_crs [OF off' wf] crs
  have b: "map_of (dicts (snd ?off) ! 6) ''crs'' = Some (Str ''EPSG:32655'')" by simp
  from wf on off a b show ?thesis by blast
qed

lemma scale_and_clip_fresh:
  "scale_and_clip_dataarray da sf off cr nn dt s = (Inr out, s')
     \<Longrightarrow> length (arrays s) \<le> data out \<and> length (dicts s) \<le> attrs out"
  by (cases cr)
    (auto simp: scale_and_clip_dataarray_def elementwise_eq Let_def data_setitem_def
      set_attrs_def alloc_dict_def dict_setitem_def split: option.splits)

text \<open>
  C6. \<open>scale_and_clip_dataarray\<close> and \<open>compute\<close> leave every array and every attribute
  dictionary that existed before the call as it was, whether they return or raise: in
  particular the data and the attributes of the input band (its \<open>nodata\<close> entry
  included) and of every band of the input cube. The band that
  \<open>scale_and_clip_dataarray\<close> returns has data and attributes that did not exist before
  the call. (\<open>orig_attrs\<close> is the input's own dictionary, but assigning it to \<open>attrs\<close>
  stores a copy, and the write of \<open>nodata\<close> goes to the copy.) The unmixing function is
  a function of the time step it is given.
\<close>

theorem no_mutation:
  "(let s' = snd (scale_and_clip_dataarray da scale_factor add_offset clip_range new_nodata new_dtype s)
    in extends s s'
       \<and> (wf_dataarray s da \<longrightarrow> values_of s' da = values_of s da \<and> attrs_of s' da = attrs_of s da)
       \<and> (\<forall>out. fst (scale_and_clip_dataarray da scale_factor add_offset clip_range new_nodata new_dtype s)
                  = Inr out
            \<longrightarrow> length (arrays s) \<le> data out \<and> length (dicts s) \<le> attrs out))
   \<and> (let s'' = snd (compute self fractional_cover ds s)
      in extends s s''
         \<and> (wf_dataset s ds \<longrightarrow>
               dicts s'' ! ds_attrs ds = dicts s ! ds_attrs ds
             \<and> list_all (\<lambda>kv. values_of s'' (snd kv) = values_of s (snd kv)
                              \<and> attrs_of s'' (snd kv) = attrs_of s (snd kv))
                 (data_vars ds)))"
proof -
  let ?r = "scale_and_clip_dataarray da scale_factor add_offset clip_range new_nodata new_dtype s"
  have e1: "extends s (snd ?r)" by (rule scale_and_clip_extends)
  have k1: "values_of (snd ?r) da = values_of s da \<and> attrs_of (snd ?r) da = attrs_of s da"
    if "wf_dataarray s da"
    using extends_values [OF e1 that] extends_attrs [OF e1 that] by simp
  have f1: "length (arrays s) \<le> data out \<and> length (dicts s) \<le> attrs out" if "fst ?r = Inr out" for out
  proof -
    have "?r = (Inr out, snd ?r)" using that by (simp add: prod_eq_iff)
    then show ?thesis by (rule scale_and_clip_fresh)
  qed
  have e2: "extends s (snd (compute self fractional_cover ds s))" by (rule compute_extends)
  have k2: "dicts (snd (compute self fractional_cover ds s)) ! ds_attrs ds = dicts s ! ds_attrs ds
      \<and> list_all (\<lambda>kv. values_of (snd (compute self fractional_cover ds s)) (snd kv) = values_of s (snd kv)
                        \<and> attrs_of (snd (compute self fractional_cover ds s)) (snd kv) = attrs_of s (snd kv))
           (data_vars ds)"
    if wf: "wf_dataset s ds"
  proof -
    have "ds_attrs ds < length (dicts s)" using wf by (simp add: wf_dataset_def)
    then have "dicts (snd (compute self fractional_cover ds s)) ! ds_attrs ds = dicts s ! ds_attrs ds"
      by (rule extends_dict [OF e2])
    moreover have "values_of (snd (compute self fractional_cover ds s)) (snd kv) = values_of s (snd kv)
        \<and> attrs_of (snd (compute self fractional_cover ds s)) (snd kv) = attrs_of s (snd kv)"
      if "kv \<in> set (data_vars ds)" for kv
    proof -
      have "wf_dataarray s (snd kv)" using wf that by (auto simp: wf_dataset_def list_all_iff)
      then show ?thesis using extends_values [OF e2] extends_attrs [OF e2] by simp
    qed
    ultimately show ?thesis by (simp add: list_all_iff)
  qed
  show ?thesis using e1 k1 f1 e2 k2 by (simp add: Let_def)
qed

theorem no_mutation_witness:
  "wf_dataarray example_store example_band
   \<and> fst (scale_and_clip_dataarray example_band (11 / 40) (- 2000) (Some (0, 10000)) (- 999) Int16
        example_store) = Inr \<lparr>data = 4, window = None, attrs = 6\<rparr>
   \<and> values_of (snd (scale_and_clip_dataarray example_band (11 / 40) (- 2000) (Some (0, 10000)) (- 999)
        Int16 example_store)) example_band = [[[5000, - 999], [20000, 0]]]
   \<and> attrs_of (snd (scale_and_clip_dataarray example_band (11 / 40) (- 2000) (Some (0, 10000)) (- 999)
        Int16 example_store)) example_band = [(''nodata'', Num (- 999)), (''units'', Str ''1'')]
   \<and> length (arrays example_store) \<le> 4 \<and> length (dicts example_store) \<le> 6
   \<and> wf_dataset tiny_store tiny_cube
   \<and> dicts (snd (compute (init None True True) (example_unmix True) tiny_cube tiny_store)) ! 1
       = [(''crs'', Str ''EPSG:32655'')]
   \<and> values_of (snd (compute (init None True True) (example_unmix True) tiny_cube tiny_store))
        \<lparr>data = 0, window = None, attrs = 0\<rparr> = [[[4000, 0]]]
   \<and> attrs_of (snd (compute (init None True True) (example_unmix True) tiny_cube tiny_store))
        \<lparr>data = 0, window = None, attrs = 0\<rparr> = [(''nodata'', Num 0)]"
proof -
  let ?r = "scale_and_clip_dataarray example_band (11 / 40) (- 2000) (Some (0, 10000)) (- 999) Int16
        example_store"
  let ?c = "compute (init None True True) (example_unmix True) tiny_cube tiny_store"
  have h1: "wf_dataarray example_store example_band" by code_simp
  have h2: "fst ?r = Inr \<lparr>data = 4, window = None, attrs = 6\<rparr>" by code_simp
  have h3: "wf_dataset tiny_store tiny_cube" by code_simp
  have v: "values_of example_store example_band = [[[5000, - 999], [20000, 0]]]"
    "attrs_of example_store example_band = [(''nodata'', Num (- 999)), (''units'', Str ''1'')]"
    by (simp_all add: values_of_def view_def attrs_of_def example_store_def example_band_def)
  have w: "values_of tiny_store \<lparr>data = 0, window = None, attrs = 0\<rparr> = [[[4000, 0]]]"
    "attrs_of tiny_store \<lparr>data = 0, window = None, attrs = 0\<rparr> = [(''nodata'', Num 0)]"
    "dicts tiny_store ! 1 = [(''crs'', Str ''EPSG:32655'')]"
    by (simp_all add: values_of_def view_def attrs_of_def tiny_store_def)
  have l: "length (arrays example_store) \<le> 4 \<and> length (dicts example_store) \<le> 6"
    by (simp add: example_store_def)
  from no_mutation [of example_band "11 / 40" "- 2000" "Some (0, 10000)" "- 999" Int16 example_store]
    h1 h2 v
  have a: "values_of (snd ?r) example_band = [[[5000, - 999], [20000, 0]]]
      \<and> attrs_of (snd ?r) example_band = [(''nodata'', Num (- 999)), (''units'', Str ''1'')]"
    by (simp add: Let_def)
  from no_mutation [of _ _ _ _ _ _ tiny_store "init None True True" "example_unmix True" tiny_cube]
    h3 w
  have b: "dicts (snd ?c) ! 1 = [(''crs'', Str ''EPSG:32655'')]
      \<and> values_of (snd ?c) \<lparr>data = 0, window = None, attrs = 0\<rparr> = [[[4000, 0]]]
      \<and> attrs_of (snd ?c) \<lparr>data = 0, window = None, attrs = 0\<rparr> = [(''nodata'', Num 0)]"
    by (simp add: Let_def tiny_cube_def)
  from h1 h2 h3 a b l show ?thesis by blast
qed

subsection \<open>Renaming and the loop\<close>

lemma isel_time_wf:
  assumes "wf_dataset s ds" and "i < length (time ds)"
  shows "isel_time ds i s =
     Inr \<lparr>bands = map (\<lambda>(k, da). (k, values_of s da ! i, attrs_of s da)) (data_vars ds),
          slice_time = time ds ! i, slice_attrs = dicts s ! ds_attrs ds\<rparr>"
proof -
  have "list_all (\<lambda>(k, da). i < length (values_of s da)) (data_vars ds)"
    using assms by (auto simp: wf_dataset_def list_all_iff)
  then show ?thesis using assms(2) by (simp add: isel_time_def)
qed







subsection \<open>The time axis of the result\<close>





subsection \<open>The test window\<close>

lemma xr_concat_names:
  assumes "xr_concat objs s = (Inr fcd, s')"
  shows "list_all (\<lambda>sl. set (map fst (bands sl)) = set (map fst (bands (hd objs)))) objs"
proof (cases objs)
  case Nil
  with assms show ?thesis by (simp add: xr_concat_def)
next
  case (Cons first rest)
  with assms show ?thesis
    by (cases "list_all (\<lambda>sl. set (map fst (bands sl)) = set (map fst (bands first))) rest")
      (simp_all add: xr_concat_def)
qed

lemma has_shape_map [simp]: "has_shape h w (map (map f) g) = has_shape h w g"
  by (simp add: has_shape_def list_all_iff)

lemma has_shape_take:
  "has_shape h w g \<Longrightarrow> has_shape (min n h) (min n w) (map (take n) (take n g))"
  by (auto simp: has_shape_def list_all_iff min.commute dest: in_set_takeD)

lemma shape_map3: "list_all (has_shape h w) (map3 f a) = list_all (has_shape h w) a"
  by (simp add: map3_def list_all_iff)

lemma shape_cut: "list_all (has_shape h w) a \<Longrightarrow> list_all (has_shape (min n h) (min n w)) (cut n a)"
  by (simp add: cut_def list_all_iff has_shape_take)

lemma prepared_shape:
  assumes "list_all (has_shape ny nx) a"
  shows "list_all (has_shape (if test_mode self then min 100 ny else ny)
                             (if test_mode self then min 100 nx else nx))
           (prepared_values self d a)"
  using assms shape_cut [OF assms, of 100]
  by (cases "map_of d ''nodata''") (simp_all add: prepared_values_def shape_map3)

lemma grid_of_shape:
  assumes "k \<in> set (map fst (bands sl))"
    and "list_all (\<lambda>b. has_shape h w (fst (snd b))) (bands sl)"
  shows "has_shape h w (grid_of sl k)"
proof -
  from assms(1) obtain gd where m: "map_of (bands sl) k = Some gd"
    by (cases "map_of (bands sl) k") (auto simp: map_of_eq_None_iff)
  then have "(k, gd) \<in> set (bands sl)" by (rule map_of_SomeD)
  then have "has_shape h w (fst gd)" using assms(2) by (auto simp: list_all_iff)
  then show ?thesis using m by (simp add: grid_of_def split_def)
qed

text \<open>
  C9. Whenever \<open>compute\<close> returns for a well-formed cube with at least one band, every
  band of every time step being \<open>ny\<close> rows of \<open>nx\<close> cells, and an unmixing function that
  returns bands of the extent of the bands it is given: what is scaled and unmixed is, per
  band, \<open>prepared_values\<close> of the input, that is, with \<open>test_mode\<close> the first 100 rows
  and 100 columns of every time step, cut before the scaling; and every band of the
  result has, at every time step, \<open>min 100 ny\<close> rows of \<open>min 100 nx\<close> cells with
  \<open>test_mode\<close>, and \<open>ny\<close> rows of \<open>nx\<close> cells without.
\<close>

theorem compute_test_window:
  assumes run: "compute self fractional_cover ds s = (Inr out, s')"
    and wf: "wf_dataset s ds"
    and bands: "data_vars ds \<noteq> []"
    and rect: "list_all (\<lambda>kv. list_all (has_shape ny nx) (values_of s (snd kv))) (data_vars ds)"
    and shape: "\<forall>sl r h w.
        fractional_cover sl FC_MEASUREMENTS (regression_coefficients self) = Inr r
          \<and> bands sl \<noteq> [] \<and> list_all (\<lambda>b. has_shape h w (fst (snd b))) (bands sl)
        \<longrightarrow> list_all (\<lambda>b. has_shape h w (fst (snd b))) (bands r)"
  shows "\<exists>ds2 s2.
      prepare self ds s = (Inr ds2, s2)
    \<and> list_all2 (\<lambda>kv kv'. fst kv' = fst kv
           \<and> values_of s2 (snd kv') = prepared_values self (attrs_of s (snd kv)) (values_of s (snd kv)))
         (data_vars ds) (data_vars ds2)
    \<and> list_all (\<lambda>kv. list_all (has_shape (if test_mode self then min 100 ny else ny)
                                          (if test_mode self then min 100 nx else nx))
                        (values_of s' (snd kv)))
         (data_vars out)"
proof (rule compute_Inr [OF run])
  fix ds2 s2 fc fcd s3 crs
  let ?H = "if test_mode self then min 100 ny else ny"
  let ?W = "if test_mode self then min 100 nx else nx"
  let ?u = fractional_cover
  assume p: "prepare self ds s = (Inr ds2, s2)"
    and l: "unmix_loop self ?u ds2 s2 [0..<length (time ds2)] = Inr fc"
    and c: "xr_concat fc s2 = (Inr fcd, s3)"
    and s': "s' = dict_setitem (ds_attrs fcd) ''crs'' crs s3"
    and rn: "rename band_renames fcd = Inr out \<or> (rename band_renames fcd = Inl ValueError \<and> out = fcd)"
  from prepare_result [OF p wf]
  have wf2: "wf_dataset s2 ds2"
    and rel: "list_all2 (\<lambda>kv kv'. fst kv' = fst kv
           \<and> values_of s2 (snd kv') = prepared_values self (attrs_of s (snd kv)) (values_of s (snd kv)))
         (data_vars ds) (data_vars ds2)"
    by simp_all
  have sh2: "list_all (has_shape ?H ?W) (values_of s2 (snd kv'))" if "kv' \<in> set (data_vars ds2)" for kv'
  proof -
    from that obtain m where m: "m < length (data_vars ds2)" "data_vars ds2 ! m = kv'"
      by (auto simp: in_set_conv_nth)
    have lm: "length (data_vars ds) = length (data_vars ds2)" using rel by (rule list_all2_lengthD)
    have v: "values_of s2 (snd kv')
        = prepared_values self (attrs_of s (snd (data_vars ds ! m))) (values_of s (snd (data_vars ds ! m)))"
      using list_all2_nthD2 [OF rel, of m] m by simp
    have "list_all (has_shape ny nx) (values_of s (snd (data_vars ds ! m)))"
      using rect m lm by (simp add: list_all_length)
    then show ?thesis unfolding v by (rule prepared_shape)
  qed
  have la: "list_all2 (\<lambda>i r. unmix_at self ?u ds2 s2 i = Inr r) [0..<length (time ds2)] fc"
    using l by (simp only: unmix_loop_Inr)
  have shr: "list_all (\<lambda>b. has_shape ?H ?W (fst (snd b))) (bands r)" if "r \<in> set fc" for r
  proof -
    from that obtain i where i: "i < length fc" "fc ! i = r" by (auto simp: in_set_conv_nth)
    have lf: "length fc = length (time ds2)" using list_all2_lengthD [OF la] by simp
    then have it: "i < length (time ds2)" using i by simp
    have ua: "unmix_at self ?u ds2 s2 i = Inr r"
      using list_all2_nthD2 [OF la, of i] i it by simp
    let ?sl = "\<lparr>bands = map (\<lambda>(k, da). (k, values_of s2 da ! i, attrs_of s2 da)) (data_vars ds2),
          slice_time = time ds2 ! i, slice_attrs = dicts s2 ! ds_attrs ds2\<rparr>"
    have sl: "isel_time ds2 i s2 = Inr ?sl" by (rule isel_time_wf [OF wf2 it])
    then have ur: "?u ?sl FC_MEASUREMENTS (regression_coefficients self) = Inr r"
      using ua by (simp add: unmix_at_def)
    have "has_shape ?H ?W (values_of s2 (snd kv') ! i)" if "kv' \<in> set (data_vars ds2)" for kv'
    proof -
      have "length (values_of s2 (snd kv')) = length (time ds2)"
        using wf2 that by (auto simp: wf_dataset_def list_all_iff)
      then show ?thesis using sh2 [OF that] it by (simp add: list_all_length)
    qed
    then have "list_all (\<lambda>b. has_shape ?H ?W (fst (snd b))) (bands ?sl)"
      by (auto simp: list_all_iff)
    moreover have "length (data_vars ds) = length (data_vars ds2)" using rel by (rule list_all2_lengthD)
    then have "bands ?sl \<noteq> []" using bands by auto
    ultimately show ?thesis using shape ur by blast
  qed
  from xr_concat_result [OF c]
  have ne: "fc \<noteq> []"
    and names: "map fst (data_vars fcd) = map fst (bands (hd fc))"
    and vals: "list_all (\<lambda>kv. wf_dataarray s3 (snd kv)
              \<and> values_of s3 (snd kv) = map (\<lambda>sl. grid_of sl (fst kv)) fc) (data_vars fcd)"
    by simp_all
  have same: "set (map fst (bands r)) = set (map fst (bands (hd fc)))" if "r \<in> set fc" for r
    using xr_concat_names [OF c] that by (simp add: list_all_iff)
  have shf: "list_all (has_shape ?H ?W) (values_of s3 (snd kv))" if "kv \<in> set (data_vars fcd)" for kv
  proof -
    have v: "values_of s3 (snd kv) = map (\<lambda>sl. grid_of sl (fst kv)) fc"
      using vals that by (simp add: list_all_iff)
    have k: "fst kv \<in> set (map fst (bands (hd fc)))"
      using that names by (metis image_eqI list.set_map)
    have "has_shape ?H ?W (grid_of r (fst kv))" if "r \<in> set fc" for r
    proof (rule grid_of_shape)
      show "fst kv \<in> set (map fst (bands r))" using k same [OF that] by simp
      show "list_all (\<lambda>b. has_shape ?H ?W (fst (snd b))) (bands r)" by (rule shr [OF that])
    qed
    then show ?thesis unfolding v by (simp add: list_all_iff)
  qed
  have ms: "map snd (data_vars out) = map snd (data_vars fcd)"
  proof (rule disjE [OF rn])
    assume "rename band_renames fcd = Inr out"
    then show ?thesis using rename_keeps by blast
  next
    assume "rename band_renames fcd = Inl ValueError \<and> out = fcd"
    then show ?thesis by simp
  qed
  have "list_all (has_shape ?H ?W) (values_of s' (snd kv))" if "kv \<in> set (data_vars out)" for kv
  proof -
    have "snd kv \<in> set (map snd (data_vars out))" using that by simp
    then have "snd kv \<in> set (map snd (data_vars fcd))" unfolding ms .
    then obtain kv0 where "kv0 \<in> set (data_vars fcd)" "snd kv0 = snd kv" by auto
    then show ?thesis using shf [of kv0] by (simp add: s')
  qed
  then have "list_all (\<lambda>kv. list_all (has_shape ?H ?W) (values_of s' (snd kv))) (data_vars out)"
    by (simp add: list_all_iff)
  then show ?thesis using p rel by blast
qed

theorem compute_test_window_witness:
  "wf_dataset wide_store wide_cube
   \<and> data_vars wide_cube \<noteq> []
   \<and> list_all (\<lambda>kv. list_all (has_shape 1 101) (values_of wide_store (snd kv))) (data_vars wide_cube)
   \<and> fst (compute (init None False True) first_band_unmix wide_cube wide_store)
       = Inr \<lparr>data_vars =
               [(''pv'', \<lparr>data = 1, window = None, attrs = 4\<rparr>),
                (''npv'', \<lparr>data = 2, window = None, attrs = 5\<rparr>),
                (''bs'', \<lparr>data = 3, window = None, attrs = 6\<rparr>),
                (''ue'', \<lparr>data = 4, window = None, attrs = 7\<rparr>)],
              time = [0], ds_attrs = 8\<rparr>
   \<and> list_all (has_shape 1 100)
        (values_of (snd (compute (init None False True) first_band_unmix wide_cube wide_store))
           \<lparr>data = 1, window = None, attrs = 4\<rparr>)"
proof -
  let ?c = "compute (init None False True) first_band_unmix wide_cube wide_store"
  let ?out = "\<lparr>data_vars =
               [(''pv'', \<lparr>data = 1, window = None, attrs = 4\<rparr>),
                (''npv'', \<lparr>data = 2, window = None, attrs = 5\<rparr>),
                (''bs'', \<lparr>data = 3, window = None, attrs = 6\<rparr>),
                (''ue'', \<lparr>data = 4, window = None, attrs = 7\<rparr>)],
              time = [0], ds_attrs = 8\<rparr>"
  have h1: "wf_dataset wide_store wide_cube"
    by (simp add: wf_dataset_def wf_dataarray_def wide_store_def wide_cube_def values_of_def view_def)
  have h2: "data_vars wide_cube \<noteq> []" by (simp add: wide_cube_def)
  have h3: "list_all (\<lambda>kv. list_all (has_shape 1 101) (values_of wide_store (snd kv))) (data_vars wide_cube)"
    by (simp add: wide_store_def wide_cube_def values_of_def view_def has_shape_def)
  have h4: "\<forall>sl r h w.
        first_band_unmix sl FC_MEASUREMENTS (regression_coefficients (init None False True)) = Inr r
          \<and> bands sl \<noteq> [] \<and> list_all (\<lambda>b. has_shape h w (fst (snd b))) (bands sl)
        \<longrightarrow> list_all (\<lambda>b. has_shape h w (fst (snd b))) (bands r)"
    by (auto simp: first_band_unmix_def split: list.splits)
  have ev: "fst ?c = Inr ?out" by code_simp
  then have run: "?c = (Inr ?out, snd ?c)" by (simp add: prod_eq_iff)
  from compute_test_window [where fractional_cover = first_band_unmix, OF run h1 h2 h3 h4]
  have "list_all (\<lambda>kv. list_all (has_shape (if test_mode (init None False True) then min 100 1 else 1)
                                          (if test_mode (init None False True) then min 100 101 else 101))
                        (values_of (snd ?c) (snd kv)))
         (data_vars ?out)"
    by blast
  then have "list_all (has_shape 1 100) (values_of (snd ?c) \<lparr>data = 1, window = None, attrs = 4\<rparr>)"
    by (simp add: init_def)
  with h1 h2 h3 ev show ?thesis by blast
qed

subsection \<open>The fake variant and the test flag\<close>

lemma shape_of_map3 [simp]: "shape_of (map3 f a) = shape_of a"
  by (simp add: shape_of_def map3_def comp_def)

lemma map_of_list_all2:
  assumes "list_all2 (\<lambda>kv kv'. fst kv' = fst kv \<and> R (snd kv) (snd kv')) xs ys"
    and "map_of ys k = Some v'"
  shows "\<exists>v. map_of xs k = Some v \<and> R v v'"
  using assms
proof (induction xs ys rule: list_all2_induct)
  case Nil
  then show ?case by simp
next
  case (Cons x xs y ys)
  then show ?case by (cases x; cases y) (auto split: if_splits)
qed

lemma take_over_eq:
  "take_over da s = (da\<lparr>attrs := length (dicts s)\<rparr>, s\<lparr>dicts := dicts s @ [attrs_of s da]\<rparr>)"
  by (simp add: take_over_def alloc_dict_def)

lemma values_of_attrs_update [simp]: "values_of s (da\<lparr>attrs := q\<rparr>) = values_of s da"
  by (simp add: values_of_def)

lemma values_of_dicts_update [simp]: "values_of (s\<lparr>dicts := d\<rparr>) da = values_of s da"
  by (simp add: values_of_def)

lemma fake_compute_Inr:
  assumes "fake_compute self ds s = (Inr out, s')"
  obtains ds1 s1 red green where
    "(if c2_scaling self then scale_usgs_collection2 ds s else (Inr ds, s)) = (Inr ds1, s1)"
    "map_of (data_vars ds1) ''red'' = Some red"
    "map_of (data_vars ds1) ''green'' = Some green"
    "band_values s' out ''pv'' = values_of s1 red"
    "band_values s' out ''bs'' = values_of s1 red"
    "band_values s' out ''npv'' = values_of s1 green"
proof -
  obtain r1 s1 where p: "(if c2_scaling self then scale_usgs_collection2 ds s else (Inr ds, s)) = (r1, s1)"
    by (cases "if c2_scaling self then scale_usgs_collection2 ds s else (Inr ds, s)")
  with assms obtain ds1 where r1: "r1 = Inr ds1" by (cases r1) (auto simp: fake_compute_def)
  obtain red where red: "map_of (data_vars ds1) ''red'' = Some red"
    using assms p r1 by (cases "map_of (data_vars ds1) ''red''") (auto simp: fake_compute_def)
  obtain green where green: "map_of (data_vars ds1) ''green'' = Some green"
    using assms p r1 red by (cases "map_of (data_vars ds1) ''green''") (auto simp: fake_compute_def)
  have "band_values s' out ''pv'' = values_of s1 red \<and> band_values s' out ''bs'' = values_of s1 red
      \<and> band_values s' out ''npv'' = values_of s1 green"
    using assms p r1 red green
    by (auto simp: fake_compute_def take_over_eq alloc_dict_def band_values_def Let_def)
  then show ?thesis using that p r1 red green by blast
qed

text \<open>
  C10. \<open>FakeFractionalCover.compute\<close> does not read \<open>test_mode\<close>: two instances that
  differ in that flag only return the same result and leave the same store. Whatever the
  flag, when it returns for a well-formed cube, its bands pv and bs have the extent of the
  input band red and its band npv the extent of the input band green, at every time step:
  no window is cut.
\<close>

theorem fake_compute_ignores_test_mode:
  "fake_compute (self\<lparr>test_mode := b\<rparr>) ds s = fake_compute self ds s
   \<and> (\<forall>out s'. fake_compute self ds s = (Inr out, s') \<and> wf_dataset s ds \<longrightarrow>
          map fst (data_vars out) = [''pv'', ''bs'', ''npv'']
        \<and> shape_of (band_values s' out ''pv'') = shape_of (band_values s ds ''red'')
        \<and> shape_of (band_values s' out ''bs'') = shape_of (band_values s ds ''red'')
        \<and> shape_of (band_values s' out ''npv'') = shape_of (band_values s ds ''green''))"
proof -
  have indep: "fake_compute (self\<lparr>test_mode := b\<rparr>) ds s = fake_compute self ds s"
    by (simp add: fake_compute_def)
  have ext: "map fst (data_vars out) = [''pv'', ''bs'', ''npv'']
        \<and> shape_of (band_values s' out ''pv'') = shape_of (band_values s ds ''red'')
        \<and> shape_of (band_values s' out ''bs'') = shape_of (band_values s ds ''red'')
        \<and> shape_of (band_values s' out ''npv'') = shape_of (band_values s ds ''green'')"
    if run: "fake_compute self ds s = (Inr out, s')" and wf: "wf_dataset s ds" for out s'
  proof (rule fake_compute_Inr [OF run])
    fix ds1 s1 red green
    assume p: "(if c2_scaling self then scale_usgs_collection2 ds s else (Inr ds, s)) = (Inr ds1, s1)"
      and red: "map_of (data_vars ds1) ''red'' = Some red"
      and green: "map_of (data_vars ds1) ''green'' = Some green"
      and pv: "band_values s' out ''pv'' = values_of s1 red"
      and bs: "band_values s' out ''bs'' = values_of s1 red"
      and npv: "band_values s' out ''npv'' = values_of s1 green"
    have names: "map fst (data_vars out) = [''pv'', ''bs'', ''npv'']"
      using run p red green
      by (auto simp: fake_compute_def take_over_eq alloc_dict_def Let_def)
    have rel: "list_all2 (\<lambda>kv kv'. fst kv' = fst kv
            \<and> shape_of (values_of s1 (snd kv')) = shape_of (values_of s (snd kv)))
          (data_vars ds) (data_vars ds1)"
    proof (cases "c2_scaling self")
      case False
      with p have "ds1 = ds" "s1 = s" by simp_all
      then show ?thesis by (simp add: list_all2_conv_all_nth)
    next
      case True
      with p have "scale_usgs_collection2 ds s = (Inr ds1, s1)" by simp
      from scale_usgs_result [OF this wf]
      have "list_all2 (\<lambda>kv kv'. fst kv' = fst kv
              \<and> (\<exists>nd. map_of (attrs_of s (snd kv)) ''nodata'' = Some nd
                    \<and> values_of s1 (snd kv')
                        = map3 (scaled_cell (11 / 40) (- 2000) (- 999) Int16 nd) (values_of s (snd kv))))
            (data_vars ds) (data_vars ds1)"
        by simp
      then show ?thesis by (auto simp: list_all2_conv_all_nth)
    qed
    from map_of_list_all2 [OF rel red] obtain red0 where
      r0: "map_of (data_vars ds) ''red'' = Some red0"
      and r1: "shape_of (values_of s1 red) = shape_of (values_of s red0)"
      by blast
    from map_of_list_all2 [OF rel green] obtain green0 where
      g0: "map_of (data_vars ds) ''green'' = Some green0"
      and g1: "shape_of (values_of s1 green) = shape_of (values_of s green0)"
      by blast
    show ?thesis using names pv bs npv r0 r1 g0 g1 by (simp add: band_values_def)
  qed
  show ?thesis using indep ext by blast
qed

theorem fake_compute_ignores_test_mode_witness:
  "fake_compute (init None False True) example_cube example_cube_store
     = fake_compute (init None False False) example_cube example_cube_store
   \<and> wf_dataset example_cube_store example_cube
   \<and> fst (fake_compute (init None False True) example_cube example_cube_store)
       = Inr \<lparr>data_vars =
               [(''pv'', \<lparr>data = 1, window = None, attrs = 6\<rparr>),
                (''bs'', \<lparr>data = 1, window = None, attrs = 7\<rparr>),
                (''npv'', \<lparr>data = 0, window = None, attrs = 8\<rparr>)],
              time = [0, 1], ds_attrs = 9\<rparr>
   \<and> shape_of (band_values (snd (fake_compute (init None False True) example_cube example_cube_store))
        \<lparr>data_vars =
               [(''pv'', \<lparr>data = 1, window = None, attrs = 6\<rparr>),
                (''bs'', \<lparr>data = 1, window = None, attrs = 7\<rparr>),
                (''npv'', \<lparr>data = 0, window = None, attrs = 8\<rparr>)],
              time = [0, 1], ds_attrs = 9\<rparr> ''pv'') = [[2], [2]]"
proof -
  let ?c = "fake_compute (init None False True) example_cube example_cube_store"
  let ?out = "\<lparr>data_vars =
               [(''pv'', \<lparr>data = 1, window = None, attrs = 6\<rparr>),
                (''bs'', \<lparr>data = 1, window = None, attrs = 7\<rparr>),
                (''npv'', \<lparr>data = 0, window = None, attrs = 8\<rparr>)],
              time = [0, 1], ds_attrs = 9\<rparr>"
  have wf: "wf_dataset example_cube_store example_cube" by code_simp
  have ev: "fst ?c = Inr ?out" by code_simp
  then have run: "?c = (Inr ?out, snd ?c)" by (simp add: prod_eq_iff)
  have red: "shape_of (band_values example_cube_store example_cube ''red'') = [[2], [2]]"
    by (simp add: shape_of_def band_values_def example_cube_def example_cube_store_def values_of_def
        view_def)
  have upd: "(init None False False)\<lparr>test_mode := True\<rparr> = init None False True"
    by (simp add: init_def)
  from fake_compute_ignores_test_mode [where self = "init None False False" and b = True
      and ds = example_cube and s = example_cube_store]
  have a: "?c = fake_compute (init None False False) example_cube example_cube_store"
    by (simp only: upd)
  from fake_compute_ignores_test_mode [where self = "init None False True" and b = True
      and ds = example_cube and s = example_cube_store]
    run wf
  have "shape_of (band_values (snd ?c) ?out ''pv'')
      = shape_of (band_values example_cube_store example_cube ''red'')"
    by blast
  then have b: "shape_of (band_values (snd ?c) ?out ''pv'') = [[2], [2]]" by (simp only: red)
  from a wf ev b show ?thesis by blast
qed

end
